theory Spec2Isabelle
  imports Complex_Main
begin

section \<open>Bencoded values and DHT messages\<close>

text \<open>
  The DHT node (\<^verbatim>\<open>dht.cpp\<close>) exchanges bencoded dictionaries. A bencoded value is an
  integer, a byte string, a list or a dictionary. The dictionary is kept as an association
  list that is only read by key (\<^verbatim>\<open>m[k]\<close>, \<^verbatim>\<open>m.count(k)\<close>) and written by key
  (\<^verbatim>\<open>m[k] = v\<close>).
\<close>

datatype BencodedValue =
    BInt int
  | BString string
  | BList "BencodedValue list"
  | BMap "(string \<times> BencodedValue) list"

type_synonym BencodedMap = "(string \<times> BencodedValue) list"

text \<open>
  Modelled from the spec: the bencoding header is not part of the sources at hand. Reading an
  absent key (\<^verbatim>\<open>m[k]\<close>) gives a value for which \<^verbatim>\<open>as_string\<close>, \<^verbatim>\<open>as_int\<close> and
  \<^verbatim>\<open>as_map\<close> all answer "none", so that optional arguments such as \<^verbatim>\<open>seq\<close>,
  \<^verbatim>\<open>salt\<close> and \<^verbatim>\<open>cas\<close> are optional as the spec describes them.
\<close>

definition at_key :: "BencodedMap \<Rightarrow> string \<Rightarrow> BencodedValue option" where
  "at_key m k = map_of m k"


definition bset :: "BencodedMap \<Rightarrow> string \<Rightarrow> BencodedValue \<Rightarrow> BencodedMap" where
  "bset m k v = (k, v) # filter (\<lambda>p. fst p \<noteq> k) m"

fun as_string :: "BencodedValue option \<Rightarrow> string option" where
  "as_string (Some (BString s)) = Some s"
| "as_string _ = None"

fun as_int :: "BencodedValue option \<Rightarrow> int option" where
  "as_int (Some (BInt i)) = Some i"
| "as_int _ = None"

fun as_map :: "BencodedValue option \<Rightarrow> BencodedMap option" where
  "as_map (Some (BMap m)) = Some m"
| "as_map _ = None"

definition is_string :: "BencodedValue option \<Rightarrow> bool" where
  "is_string v = (as_string v \<noteq> None)"

definition is_map :: "BencodedValue option \<Rightarrow> bool" where
  "is_map v = (as_map v \<noteq> None)"

text \<open>
  Modelled from the spec: the bencoding encoder is not part of the sources at hand. This is
  the standard encoding (\<^verbatim>\<open>i<n>e\<close>, \<^verbatim>\<open><len>:<bytes>\<close>, \<^verbatim>\<open>l...e\<close>, \<^verbatim>\<open>d...e\<close>);
  the handlers below take the encoder as a collaborator and this one is used to run them.
\<close>

fun digit_char :: "nat \<Rightarrow> char" where
  "digit_char n = char_of (48 + n)"

function dec_nat :: "nat \<Rightarrow> string" where
  "dec_nat n = (if n < 10 then [digit_char n] else dec_nat (n div 10) @ [digit_char (n mod 10)])"
  by pat_completeness auto
termination
  by (relation "measure id") auto

declare dec_nat.simps [simp del]

definition dec_int :: "int \<Rightarrow> string" where
  "dec_int i = (if i < 0 then CHR ''-'' # dec_nat (nat (- i)) else dec_nat (nat i))"

fun bencode :: "BencodedValue \<Rightarrow> string"
  and bencode_list :: "BencodedValue list \<Rightarrow> string"
  and bencode_entries :: "(string \<times> BencodedValue) list \<Rightarrow> string" where
  "bencode (BInt i) = ''i'' @ dec_int i @ ''e''"
| "bencode (BString s) = dec_nat (length s) @ '':'' @ s"
| "bencode (BList xs) = ''l'' @ bencode_list xs @ ''e''"
| "bencode (BMap m) = ''d'' @ bencode_entries m @ ''e''"
| "bencode_list [] = []"
| "bencode_list (x # xs) = bencode x @ bencode_list xs"
| "bencode_entries [] = []"
| "bencode_entries (kv # m) =
     dec_nat (length (fst kv)) @ '':'' @ fst kv @ bencode (snd kv) @ bencode_entries m"

section \<open>The DHT node and its collaborators\<close>

type_synonym NodeID = string

record udp_endpoint =
  ep_address :: string
  ep_port :: int

record NodeContact =
  contact_id :: NodeID
  contact_endpoint :: udp_endpoint

record MutableDataItem =
  public_key :: string
  salt :: string
  item_value :: BencodedValue
  sequence_number :: int
  signature :: string

text \<open>
  The routing table, the tracker, the token generators, the identifier hashes, the Ed25519
  check of a mutable item and the encoders are declared in headers that are not among the
  sources; the handler takes them as collaborators. \<open>'rt\<close> is the routing table and
  \<open>'tr\<close> the tracker.
\<close>

record ('rt, 'tr) Collaborators =
  bencoding_encode :: "BencodedValue \<Rightarrow> string"
  encode_endpoint :: "udp_endpoint \<Rightarrow> string"
  find_closest_routing_nodes :: "'rt \<Rightarrow> NodeID \<Rightarrow> nat \<Rightarrow> NodeContact list"
  try_add_node :: "'rt \<Rightarrow> NodeContact \<Rightarrow> bool \<Rightarrow> 'rt"
  closer_to :: "NodeID \<Rightarrow> NodeID \<Rightarrow> NodeID \<Rightarrow> bool"
  tracker_generate_token :: "'tr \<Rightarrow> string \<Rightarrow> NodeID \<Rightarrow> string"
  tracker_verify_token :: "'tr \<Rightarrow> string \<Rightarrow> NodeID \<Rightarrow> string \<Rightarrow> bool"
  list_peers :: "'tr \<Rightarrow> NodeID \<Rightarrow> nat \<Rightarrow> udp_endpoint list"
  add_peer :: "'tr \<Rightarrow> NodeID \<Rightarrow> udp_endpoint \<Rightarrow> 'tr"
  store_generate_token :: "string \<Rightarrow> NodeID \<Rightarrow> string"
  store_verify_token :: "string \<Rightarrow> NodeID \<Rightarrow> string \<Rightarrow> bool"
  mutable_get_id :: "string \<Rightarrow> string \<Rightarrow> NodeID"
  immutable_get_id :: "BencodedValue \<Rightarrow> NodeID"
  item_verify :: "MutableDataItem \<Rightarrow> bool"
  BUCKET_SIZE :: nat
  RESPONSIBLE_TRACKERS_PER_SWARM :: nat

text \<open>
  Modelled from the spec: the data store class is not among the sources. It keeps immutable
  values and mutable items by their 160-bit key; \<^verbatim>\<open>put_mutable\<close> files the item under
  \<^verbatim>\<open>mutable_get_id(public_key, salt)\<close>, replacing what was there, and
  \<^verbatim>\<open>put_immutable\<close> files the value under \<^verbatim>\<open>immutable_get_id(value)\<close>.
\<close>

record DataStore =
  immutable_data :: "NodeID \<rightharpoonup> BencodedValue"
  mutable_data :: "NodeID \<rightharpoonup> MutableDataItem"

definition get_immutable :: "DataStore \<Rightarrow> NodeID \<Rightarrow> BencodedValue option" where
  "get_immutable ds target = immutable_data ds target"

definition get_mutable :: "DataStore \<Rightarrow> NodeID \<Rightarrow> MutableDataItem option" where
  "get_mutable ds target = mutable_data ds target"

definition put_mutable ::
  "('rt, 'tr) Collaborators \<Rightarrow> MutableDataItem \<Rightarrow> DataStore \<Rightarrow> DataStore" where
  "put_mutable env item ds =
     ds\<lparr>mutable_data := (mutable_data ds)
           (mutable_get_id env (public_key item) (salt item) \<mapsto> item)\<rparr>"

definition put_immutable ::
  "('rt, 'tr) Collaborators \<Rightarrow> BencodedValue \<Rightarrow> DataStore \<Rightarrow> DataStore" where
  "put_immutable env v ds =
     ds\<lparr>immutable_data := (immutable_data ds)(immutable_get_id env v \<mapsto> v)\<rparr>"

record ('rt, 'tr) DhtNode =
  node_id :: NodeID
  is_v4 :: bool
  routing_table :: "'rt option"
  tracker :: 'tr
  data_store :: DataStore

text \<open>
  A call of \<^verbatim>\<open>handle_query\<close> ends with the node updated and at most one datagram sent
  to the sender, or by dereferencing the routing table while it is still null (the
  \<^verbatim>\<open>get\<close> and \<^verbatim>\<open>put\<close> branches do not test it).
\<close>

datatype 'a outcome = NullDeref | Ret 'a

type_synonym datagram = "udp_endpoint \<times> BencodedMap"

definition quoted :: "string \<Rightarrow> string" where
  "quoted s = CHR 0x27 # s @ [CHR 0x27]"

definition send_error :: "udp_endpoint \<Rightarrow> string \<Rightarrow> int \<Rightarrow> string \<Rightarrow> datagram" where
  "send_error sender transaction code description =
     (sender, [(''y'', BString ''e''),
               (''t'', BString transaction),
               (''e'', BList [BInt code, BString description])])"

definition send_reply :: "NodeID \<Rightarrow> udp_endpoint \<Rightarrow> string \<Rightarrow> BencodedMap \<Rightarrow> datagram" where
  "send_reply own_id sender transaction reply =
     (sender, [(''y'', BString ''r''),
               (''t'', BString transaction),
               (''e'', BMap (bset reply ''id'' (BString own_id)))])"

definition compact_nodes :: "('rt, 'tr) Collaborators \<Rightarrow> NodeContact list \<Rightarrow> string" where
  "compact_nodes env contacts =
     concat (map (\<lambda>c. contact_id c @ encode_endpoint env (contact_endpoint c)) contacts)"

definition nodes_key :: "('rt, 'tr) DhtNode \<Rightarrow> string" where
  "nodes_key n = (if is_v4 n then ''nodes'' else ''nodes6'')"

definition contains_self ::
  "('rt, 'tr) Collaborators \<Rightarrow> NodeID \<Rightarrow> NodeID \<Rightarrow> NodeContact list \<Rightarrow> bool" where
  "contains_self env target own_id closer_nodes =
     list_ex (\<lambda>i. closer_to env target own_id (contact_id i)) closer_nodes"

section \<open>Inbound queries: \<^verbatim>\<open>DhtNode::handle_query\<close>\<close>

definition handle_find_node ::
  "('rt, 'tr) Collaborators \<Rightarrow> ('rt, 'tr) DhtNode \<Rightarrow> udp_endpoint \<Rightarrow> string \<Rightarrow>
   BencodedMap \<Rightarrow> (('rt, 'tr) DhtNode \<times> datagram option) outcome" where
  "handle_find_node env n sender transaction arguments =
     (case as_string (at_key arguments ''target'') of
        None \<Rightarrow> Ret (n, Some (send_error sender transaction 203
                 (''Missing argument '' @ quoted ''target'')))
      | Some target_id \<Rightarrow>
          if length target_id \<noteq> 20
          then Ret (n, Some (send_error sender transaction 203
                 (''Malformed argument '' @ quoted ''target'')))
          else
            let contacts = (case routing_table n of
                              None \<Rightarrow> []
                            | Some rt \<Rightarrow> find_closest_routing_nodes env rt target_id
                                           (BUCKET_SIZE env));
                nodes = (if contacts \<noteq> [] \<and> contact_id (hd contacts) = target_id
                         then compact_nodes env [hd contacts]
                         else compact_nodes env contacts);
                reply = bset [] (nodes_key n) (BString nodes)
            in Ret (n, Some (send_reply (node_id n) sender transaction reply)))"

definition NUM_PEERS :: nat where
  "NUM_PEERS = 50"

definition handle_get_peers ::
  "('rt, 'tr) Collaborators \<Rightarrow> ('rt, 'tr) DhtNode \<Rightarrow> udp_endpoint \<Rightarrow> string \<Rightarrow>
   BencodedMap \<Rightarrow> (('rt, 'tr) DhtNode \<times> datagram option) outcome" where
  "handle_get_peers env n sender transaction arguments =
     (case as_string (at_key arguments ''info_hash'') of
        None \<Rightarrow> Ret (n, Some (send_error sender transaction 203
                 (''Missing argument '' @ quoted ''info_hash'')))
      | Some infohash \<Rightarrow>
          if length infohash \<noteq> 20
          then Ret (n, Some (send_error sender transaction 203
                 (''Malformed argument '' @ quoted ''info_hash'')))
          else
            let contacts = (case routing_table n of
                              None \<Rightarrow> []
                            | Some rt \<Rightarrow> find_closest_routing_nodes env rt infohash
                                           (BUCKET_SIZE env));
                reply0 = bset [] (nodes_key n) (BString (compact_nodes env contacts));
                reply1 = bset reply0 ''token''
                           (BString (tracker_generate_token env (tracker n)
                                       (ep_address sender) infohash));
                peers = list_peers env (tracker n) infohash NUM_PEERS;
                reply2 = (if peers \<noteq> []
                          then bset reply1 ''values''
                                 (BList (map (\<lambda>peer. BString (encode_endpoint env peer)) peers))
                          else reply1)
            in Ret (n, Some (send_reply (node_id n) sender transaction reply2)))"

definition handle_announce_peer ::
  "('rt, 'tr) Collaborators \<Rightarrow> ('rt, 'tr) DhtNode \<Rightarrow> udp_endpoint \<Rightarrow> string \<Rightarrow>
   BencodedMap \<Rightarrow> (('rt, 'tr) DhtNode \<times> datagram option) outcome" where
  "handle_announce_peer env n sender transaction arguments =
     (case as_string (at_key arguments ''info_hash'') of
        None \<Rightarrow> Ret (n, Some (send_error sender transaction 203
                 (''Missing argument '' @ quoted ''info_hash'')))
      | Some infohash \<Rightarrow>
          if length infohash \<noteq> 20
          then Ret (n, Some (send_error sender transaction 203
                 (''Malformed argument '' @ quoted ''info_hash'')))
          else
            (case as_string (at_key arguments ''token'') of
               None \<Rightarrow> Ret (n, Some (send_error sender transaction 203
                        (''Missing argument '' @ quoted ''token'')))
             | Some token \<Rightarrow>
                 (case as_int (at_key arguments ''port'') of
                    None \<Rightarrow> Ret (n, Some (send_error sender transaction 203
                             (''Missing argument '' @ quoted ''port'')))
                  | Some port \<Rightarrow>
                      let effective_port =
                            (if as_int (at_key arguments ''implied_port'') = Some 1
                             then ep_port sender else port)
                      in
                        if (case routing_table n of
                              None \<Rightarrow> False
                            | Some rt \<Rightarrow>
                                \<not> contains_self env infohash (node_id n)
                                    (find_closest_routing_nodes env rt infohash
                                       (RESPONSIBLE_TRACKERS_PER_SWARM env * 4)))
                        then Ret (n, Some (send_error sender transaction 201
                               ''This torrent is not my responsibility''))
                        else if \<not> tracker_verify_token env (tracker n)
                                     (ep_address sender) infohash token
                        then Ret (n, Some (send_error sender transaction 203
                               ''Incorrect announce token''))
                        else
                          Ret (n\<lparr>tracker := add_peer env (tracker n) infohash
                                    \<lparr>ep_address = ep_address sender,
                                     ep_port = effective_port mod 65536\<rparr>\<rparr>,
                               Some (send_reply (node_id n) sender transaction [])))))"

definition handle_get ::
  "('rt, 'tr) Collaborators \<Rightarrow> ('rt, 'tr) DhtNode \<Rightarrow> udp_endpoint \<Rightarrow> string \<Rightarrow>
   BencodedMap \<Rightarrow> (('rt, 'tr) DhtNode \<times> datagram option) outcome" where
  "handle_get env n sender transaction arguments =
     (case as_string (at_key arguments ''target'') of
        None \<Rightarrow> Ret (n, Some (send_error sender transaction 203
                 (''Missing argument '' @ quoted ''target'')))
      | Some target \<Rightarrow>
          if length target \<noteq> 20
          then Ret (n, Some (send_error sender transaction 203
                 (''Malformed argument '' @ quoted ''target'')))
          else
            let seq_opt = as_int (at_key arguments ''seq'') in
            (case routing_table n of
               None \<Rightarrow> NullDeref
             | Some rt \<Rightarrow>
                 let contacts = find_closest_routing_nodes env rt target (BUCKET_SIZE env);
                     reply0 = bset [] (nodes_key n) (BString (compact_nodes env contacts));
                     reply = bset reply0 ''token''
                               (BString (store_generate_token env (ep_address sender) target));
                     immutable_value =
                       (if seq_opt = None
                        then get_immutable (data_store n) target else None)
                 in
                   (case immutable_value of
                      Some v \<Rightarrow>
                        Ret (n, Some (send_reply (node_id n) sender transaction
                                        (bset reply ''v'' v)))
                    | None \<Rightarrow>
                        (case get_mutable (data_store n) target of
                           Some mutable_item \<Rightarrow>
                             if (case seq_opt of
                                   None \<Rightarrow> False
                                 | Some s \<Rightarrow> s \<le> sequence_number mutable_item)
                             then Ret (n, Some (send_reply (node_id n) sender transaction reply))
                             else
                               let r1 = bset reply ''k'' (BString (public_key mutable_item));
                                   r2 = bset r1 ''seq'' (BInt (sequence_number mutable_item));
                                   r3 = bset r2 ''sig'' (BString (signature mutable_item));
                                   r4 = bset r3 ''v'' (item_value mutable_item)
                               in Ret (n, Some (send_reply (node_id n) sender transaction r4))
                         | None \<Rightarrow>
                             Ret (n, Some (send_reply (node_id n) sender transaction reply))))))"

text \<open>
  The checks of a mutable \<^verbatim>\<open>put\<close> against the item already stored under the target:
  the answer is the error to send, or none when the item may be stored.
\<close>

definition check_existing_item ::
  "('rt, 'tr) Collaborators \<Rightarrow> BencodedMap \<Rightarrow> BencodedValue \<Rightarrow> int \<Rightarrow>
   MutableDataItem option \<Rightarrow> (int \<times> string) option" where
  "check_existing_item env arguments v seq existing_item =
     (case existing_item of
        None \<Rightarrow> None
      | Some existing \<Rightarrow>
          if seq < sequence_number existing
          then Some (302, ''Sequence number less than current'')
          else if seq = sequence_number existing
                  \<and> bencoding_encode env v \<noteq> bencoding_encode env (item_value existing)
          then Some (302, ''Sequence number not updated'')
          else
            (case as_int (at_key arguments ''cas'') of
               None \<Rightarrow> None
             | Some compare_and_swap \<Rightarrow>
                 if compare_and_swap \<noteq> sequence_number existing
                 then Some (301, ''Compare-and-swap mismatch'')
                 else None))"

definition handle_put_mutable ::
  "('rt, 'tr) Collaborators \<Rightarrow> ('rt, 'tr) DhtNode \<Rightarrow> udp_endpoint \<Rightarrow> string \<Rightarrow>
   BencodedMap \<Rightarrow> string \<Rightarrow> BencodedValue \<Rightarrow>
   (('rt, 'tr) DhtNode \<times> datagram option) outcome" where
  "handle_put_mutable env n sender transaction arguments token v =
     (case as_string (at_key arguments ''k'') of
        None \<Rightarrow> Ret (n, Some (send_error sender transaction 203
                 (''Missing argument '' @ quoted ''k'')))
      | Some pk \<Rightarrow>
          if length pk \<noteq> 32
          then Ret (n, Some (send_error sender transaction 203
                 (''Malformed argument '' @ quoted ''k'')))
          else
            (case as_string (at_key arguments ''sig'') of
               None \<Rightarrow> Ret (n, Some (send_error sender transaction 203
                        (''Missing argument '' @ quoted ''sig'')))
             | Some sg \<Rightarrow>
                 if length sg \<noteq> 64
                 then Ret (n, Some (send_error sender transaction 203
                        (''Malformed argument '' @ quoted ''sig'')))
                 else
                   (case as_int (at_key arguments ''seq'') of
                      None \<Rightarrow> Ret (n, Some (send_error sender transaction 203
                               (''Missing argument '' @ quoted ''seq'')))
                    | Some seq \<Rightarrow>
                        let salt_opt = as_string (at_key arguments ''salt'') in
                        if (case salt_opt of None \<Rightarrow> False | Some sl \<Rightarrow> length sl > 64)
                        then Ret (n, Some (send_error sender transaction 207
                               (''Argument '' @ quoted ''salt'' @ '' too big'')))
                        else
                          let sl = (case salt_opt of None \<Rightarrow> [] | Some x \<Rightarrow> x);
                              target = mutable_get_id env pk sl
                          in
                            if \<not> store_verify_token env (ep_address sender) target token
                            then Ret (n, Some (send_error sender transaction 203
                                   ''Incorrect put token''))
                            else
                              (case routing_table n of
                                 None \<Rightarrow> NullDeref
                               | Some rt \<Rightarrow>
                                   if \<not> contains_self env target (node_id n)
                                        (find_closest_routing_nodes env rt target
                                           (RESPONSIBLE_TRACKERS_PER_SWARM env * 4))
                                   then Ret (n, Some (send_error sender transaction 201
                                          ''This data item is not my responsibility''))
                                   else
                                     let item = \<lparr>public_key = pk, salt = sl, item_value = v,
                                                 sequence_number = seq, signature = sg\<rparr>
                                     in
                                       if \<not> item_verify env item
                                       then Ret (n, Some (send_error sender transaction 206
                                              ''Invalid signature''))
                                       else
                                         (case check_existing_item env arguments v seq
                                                 (get_mutable (data_store n) target) of
                                            Some err \<Rightarrow>
                                              Ret (n, Some (send_error sender transaction
                                                              (fst err) (snd err)))
                                          | None \<Rightarrow>
                                              Ret (n\<lparr>data_store :=
                                                        put_mutable env item (data_store n)\<rparr>,
                                                   Some (send_reply (node_id n) sender
                                                           transaction [])))))))"

definition handle_put_immutable ::
  "('rt, 'tr) Collaborators \<Rightarrow> ('rt, 'tr) DhtNode \<Rightarrow> udp_endpoint \<Rightarrow> string \<Rightarrow>
   string \<Rightarrow> BencodedValue \<Rightarrow> (('rt, 'tr) DhtNode \<times> datagram option) outcome" where
  "handle_put_immutable env n sender transaction token v =
     (let target = immutable_get_id env v in
        if \<not> store_verify_token env (ep_address sender) target token
        then Ret (n, Some (send_error sender transaction 203 ''Incorrect put token''))
        else
          (case routing_table n of
             None \<Rightarrow> NullDeref
           | Some rt \<Rightarrow>
               if \<not> contains_self env target (node_id n)
                    (find_closest_routing_nodes env rt target
                       (RESPONSIBLE_TRACKERS_PER_SWARM env * 4))
               then Ret (n, Some (send_error sender transaction 201
                      ''This data item is not my responsibility''))
               else Ret (n\<lparr>data_store := put_immutable env v (data_store n)\<rparr>,
                         Some (send_reply (node_id n) sender transaction []))))"

definition handle_put ::
  "('rt, 'tr) Collaborators \<Rightarrow> ('rt, 'tr) DhtNode \<Rightarrow> udp_endpoint \<Rightarrow> string \<Rightarrow>
   BencodedMap \<Rightarrow> (('rt, 'tr) DhtNode \<times> datagram option) outcome" where
  "handle_put env n sender transaction arguments =
     (case as_string (at_key arguments ''token'') of
        None \<Rightarrow> Ret (n, Some (send_error sender transaction 203
                 (''Missing argument '' @ quoted ''token'')))
      | Some token \<Rightarrow>
          (case at_key arguments ''v'' of
             None \<Rightarrow> Ret (n, Some (send_error sender transaction 203
                      (''Missing argument '' @ quoted ''v'')))
           | Some v \<Rightarrow>
               if length (bencoding_encode env v) \<ge> 1000
               then Ret (n, Some (send_error sender transaction 205
                      (''Argument '' @ quoted ''v'' @ '' too big'')))
               else if is_string (at_key arguments ''k'')
               then handle_put_mutable env n sender transaction arguments token v
               else handle_put_immutable env n sender transaction token v))"

definition handle_query ::
  "('rt, 'tr) Collaborators \<Rightarrow> ('rt, 'tr) DhtNode \<Rightarrow> udp_endpoint \<Rightarrow> BencodedMap \<Rightarrow>
   (('rt, 'tr) DhtNode \<times> datagram option) outcome" where
  "handle_query env n sender query =
     (case as_string (at_key query ''t'') of
        None \<Rightarrow> Ret (n, None)
      | Some transaction \<Rightarrow>
          (case as_string (at_key query ''q'') of
             None \<Rightarrow> Ret (n, Some (send_error sender transaction 203
                      (''Missing field '' @ quoted ''q'')))
           | Some query_type \<Rightarrow>
               (case as_map (at_key query ''a'') of
                  None \<Rightarrow> Ret (n, Some (send_error sender transaction 203
                           (''Missing field '' @ quoted ''a'')))
                | Some arguments \<Rightarrow>
                    (case as_string (at_key arguments ''id'') of
                       None \<Rightarrow> Ret (n, Some (send_error sender transaction 203
                                (''Missing argument '' @ quoted ''id'')))
                     | Some sender_id \<Rightarrow>
                         if length sender_id \<noteq> 20
                         then Ret (n, Some (send_error sender transaction 203
                                (''Malformed argument '' @ quoted ''id'')))
                         else
                           let contact = \<lparr>contact_id = sender_id, contact_endpoint = sender\<rparr>;
                               read_only_flag = as_int (at_key arguments ''ro'');
                               n1 = (case routing_table n of
                                       None \<Rightarrow> n
                                     | Some rt \<Rightarrow>
                                         if read_only_flag \<noteq> Some 1
                                         then n\<lparr>routing_table :=
                                                  Some (try_add_node env rt contact False)\<rparr>
                                         else n)
                           in
                             if query_type = ''ping''
                             then Ret (n1, Some (send_reply (node_id n1) sender transaction []))
                             else if query_type = ''find_node''
                             then handle_find_node env n1 sender transaction arguments
                             else if query_type = ''get_peers''
                             then handle_get_peers env n1 sender transaction arguments
                             else if query_type = ''announce_peer''
                             then handle_announce_peer env n1 sender transaction arguments
                             else if query_type = ''get''
                             then handle_get env n1 sender transaction arguments
                             else if query_type = ''put''
                             then handle_put env n1 sender transaction arguments
                             else Ret (n1, Some (send_error sender transaction 204
                                    ''Query type not implemented''))))))"

subsection \<open>A concrete node, collaborators and queries\<close>

text \<open>
  Concrete collaborators on which the handlers can be run: one known contact, tokens equal to
  \<open>''tok''\<close>, every mutable item validly signed, identifiers cut from the key material.
\<close>

definition demo_contact :: NodeContact where
  "demo_contact = \<lparr>contact_id = replicate 20 CHR ''c'',
                    contact_endpoint = \<lparr>ep_address = ''10.0.0.2'', ep_port = 6881\<rparr>\<rparr>"

definition demo_env :: "(unit, unit) Collaborators" where
  "demo_env =
     \<lparr>bencoding_encode = bencode,
      encode_endpoint = (\<lambda>e. ep_address e),
      find_closest_routing_nodes = (\<lambda>rt target k. [demo_contact]),
      try_add_node = (\<lambda>rt c verified. rt),
      closer_to = (\<lambda>target a b. True),
      tracker_generate_token = (\<lambda>tr a i. ''tok''),
      tracker_verify_token = (\<lambda>tr a i t. t = ''tok''),
      list_peers = (\<lambda>tr i k. []),
      add_peer = (\<lambda>tr i e. tr),
      store_generate_token = (\<lambda>a i. ''tok''),
      store_verify_token = (\<lambda>a i t. t = ''tok''),
      mutable_get_id = (\<lambda>pk sl. take 20 (pk @ sl)),
      immutable_get_id = (\<lambda>v. take 20 (bencode v @ replicate 20 CHR ''0'')),
      item_verify = (\<lambda>item. True),
      BUCKET_SIZE = 8,
      RESPONSIBLE_TRACKERS_PER_SWARM = 8\<rparr>"

definition demo_sender :: udp_endpoint where
  "demo_sender = \<lparr>ep_address = ''10.0.0.1'', ep_port = 6881\<rparr>"

definition demo_node :: "(unit, unit) DhtNode" where
  "demo_node =
     \<lparr>node_id = replicate 20 CHR ''n'', is_v4 = True, routing_table = Some (),
      tracker = (), data_store = \<lparr>immutable_data = Map.empty, mutable_data = Map.empty\<rparr>\<rparr>"

definition demo_target :: NodeID where
  "demo_target = replicate 20 CHR ''k''"

definition demo_item :: "int \<Rightarrow> MutableDataItem" where
  "demo_item s = \<lparr>public_key = replicate 32 CHR ''k'', salt = [], item_value = BString ''old'',
                  sequence_number = s, signature = replicate 64 CHR ''g''\<rparr>"

definition new_item :: "int \<Rightarrow> MutableDataItem" where
  "new_item s = \<lparr>public_key = replicate 32 CHR ''k'', salt = [], item_value = BString ''new'',
                 sequence_number = s, signature = replicate 64 CHR ''h''\<rparr>"

definition demo_node_with :: "MutableDataItem \<Rightarrow> (unit, unit) DhtNode" where
  "demo_node_with item =
     demo_node\<lparr>data_store := \<lparr>immutable_data = Map.empty,
                               mutable_data = [demo_target \<mapsto> item]\<rparr>\<rparr>"

definition ping_query :: BencodedMap where
  "ping_query =
     [(''t'', BString ''aa''), (''y'', BString ''q''), (''q'', BString ''ping''),
      (''a'', BMap [(''id'', BString (replicate 20 CHR ''s''))])]"

definition get_query :: "int \<Rightarrow> BencodedMap" where
  "get_query s =
     [(''t'', BString ''aa''), (''y'', BString ''q''), (''q'', BString ''get''),
      (''a'', BMap [(''id'', BString (replicate 20 CHR ''s'')),
                    (''target'', BString demo_target),
                    (''seq'', BInt s)])]"

definition put_query :: "BencodedValue \<Rightarrow> BencodedMap" where
  "put_query v =
     [(''t'', BString ''aa''), (''y'', BString ''q''), (''q'', BString ''put''),
      (''a'', BMap [(''id'', BString (replicate 20 CHR ''s'')),
                    (''token'', BString ''tok''),
                    (''v'', v)])]"

definition put_arguments :: "int \<Rightarrow> int option \<Rightarrow> BencodedMap" where
  "put_arguments s cas =
     [(''id'', BString (replicate 20 CHR ''s'')),
      (''token'', BString ''tok''),
      (''v'', BString ''new''),
      (''k'', BString (replicate 32 CHR ''k'')),
      (''sig'', BString (replicate 64 CHR ''h'')),
      (''seq'', BInt s)]
     @ (case cas of None \<Rightarrow> [] | Some c \<Rightarrow> [(''cas'', BInt c)])"

text \<open>
  Collaborators that take a mutable item as validly signed only when its signature is the one
  of \<open>new_item\<close>, and a \<^verbatim>\<open>put\<close> of the same item under another signature.
\<close>

definition demo_env_strict :: "(unit, unit) Collaborators" where
  "demo_env_strict = demo_env\<lparr>item_verify := (\<lambda>item. signature item = replicate 64 CHR ''h'')\<rparr>"

definition forged_put_arguments :: "int \<Rightarrow> BencodedMap" where
  "forged_put_arguments s =
     [(''id'', BString (replicate 20 CHR ''s'')),
      (''token'', BString ''tok''),
      (''v'', BString ''new''),
      (''k'', BString (replicate 32 CHR ''k'')),
      (''sig'', BString (replicate 64 CHR ''x'')),
      (''seq'', BInt s)]"

text \<open>The dictionary that \<^verbatim>\<open>send_reply\<close> attached to the datagram sent, if one was sent.\<close>

definition reply_dict :: "(('rt, 'tr) DhtNode \<times> datagram option) outcome \<Rightarrow> BencodedMap" where
  "reply_dict r =
     (case r of
        Ret (n, Some (dst, msg)) \<Rightarrow> (case as_map (at_key msg ''e'') of Some m \<Rightarrow> m | None \<Rightarrow> [])
      | _ \<Rightarrow> [])"

section \<open>Parts of an HTTP response and error codes\<close>

datatype errc = bad_message | no_message | length_error

type_synonym bytes = string

datatype Part =
    Head string
  | Body bytes
  | ChunkHdr nat string
  | ChunkBody bytes
  | Trailer string

section \<open>Loading a hash list: \<^verbatim>\<open>HashList::load\<close> (\<^verbatim>\<open>hash_list.cpp\<close>)\<close>

definition MAX_LINE_SIZE_BYTES :: nat where
  "MAX_LINE_SIZE_BYTES = 512"

definition MAGIC :: string where
  "MAGIC = ''OUINET_HASH_LIST_V1''"

definition newline :: char where
  "newline = CHR 0x0A"

text \<open>
  The parser's buffer with the variables of \<^verbatim>\<open>load\<close> that its loops read and write.
\<close>

record Parser =
  buffer :: bytes
  magic_checked :: bool
  hl_signature :: "bytes option"
  hashes :: "bytes list"
  progress :: bool

definition append_data :: "bytes \<Rightarrow> Parser \<Rightarrow> Parser" where
  "append_data d p = p\<lparr>buffer := buffer p @ d\<rparr>"

definition read_line :: "Parser \<Rightarrow> (string \<times> Parser) option" where
  "read_line p =
     (if newline \<in> set (buffer p)
      then Some (takeWhile (\<lambda>c. c \<noteq> newline) (buffer p),
                 p\<lparr>buffer := tl (dropWhile (\<lambda>c. c \<noteq> newline) (buffer p))\<rparr>)
      else None)"

definition read_array :: "nat \<Rightarrow> Parser \<Rightarrow> (bytes \<times> Parser) option" where
  "read_array N p =
     (if length (buffer p) < N then None
      else Some (take N (buffer p), p\<lparr>buffer := drop N (buffer p)\<rparr>))"

definition read_signature :: "Parser \<Rightarrow> (bytes \<times> Parser) option" where
  "read_signature p = read_array 64 p"

definition read_hash :: "Parser \<Rightarrow> (bytes \<times> Parser) option" where
  "read_hash p = read_array 64 p"

text \<open>
  One pass through the body of the inner \<^verbatim>\<open>while (true)\<close>: either \<^verbatim>\<open>load\<close> returns
  the error (\<open>Inl\<close>), or the body ends and the loop goes round again (\<open>Inr\<close>). The body
  has no \<^verbatim>\<open>break\<close>, assigns neither \<^verbatim>\<open>magic_checked\<close> nor resets \<^verbatim>\<open>progress\<close>.
\<close>

definition parse_step :: "Parser \<Rightarrow> errc + Parser" where
  "parse_step p =
     (let r =
        (if \<not> magic_checked p then
           (case read_line p of
              Some (magic_line, p') \<Rightarrow>
                if magic_line \<noteq> MAGIC then Inl bad_message
                else Inr (p'\<lparr>progress := True\<rparr>)
            | None \<Rightarrow> Inr p)
         else if hl_signature p = None then
           (case read_signature p of
              Some (sg, p') \<Rightarrow> Inr (p'\<lparr>hl_signature := Some sg, progress := True\<rparr>)
            | None \<Rightarrow> Inr p)
         else
           (case read_hash p of
              Some (h, p') \<Rightarrow> Inr (p'\<lparr>hashes := hashes p' @ [h], progress := True\<rparr>)
            | None \<Rightarrow> Inr p))
      in case r of
           Inl e \<Rightarrow> Inl e
         | Inr p1 \<Rightarrow>
             if \<not> progress p1 \<and> length (buffer p1) > MAX_LINE_SIZE_BYTES
             then Inl bad_message
             else Inr p1)"

text \<open>
  The inner loop. It can only end by \<^verbatim>\<open>load\<close> returning an error; \<open>None\<close> is the loop
  that never ends.
\<close>

partial_function (option) parse_loop :: "Parser \<Rightarrow> errc option" where
  "parse_loop p = (case parse_step p of Inl e \<Rightarrow> Some e | Inr p' \<Rightarrow> parse_loop p')"

record 'h HashList =
  signed_head :: 'h
  list_signature :: bytes
  block_hashes :: "bytes list"

text \<open>
  \<^verbatim>\<open>SignedHead::verify_and_create\<close>, the block size of the signed head, SHA-512 and
  \<^verbatim>\<open>Block::verify\<close> are collaborators; the reader is the finite sequence of parts it
  delivers before the end of the stream.
\<close>

record 'h HashListDeps =
  verify_and_create :: "string \<Rightarrow> 'h option"
  head_block_size :: "'h \<Rightarrow> nat"
  hl_sha512 :: "bytes \<Rightarrow> bytes"
  block_verify :: "'h \<Rightarrow> nat \<Rightarrow> bytes \<Rightarrow> bytes \<Rightarrow> bool"

text \<open>
  \<^verbatim>\<open>HashList::verify\<close>: the loop over the block hashes keeps the last chain digest, the
  offset of the last block and whether it is at the first hash.
\<close>

definition verify_pass ::
  "'h HashListDeps \<Rightarrow> nat \<Rightarrow> bytes \<Rightarrow> bytes option \<times> nat \<times> bool \<Rightarrow> bytes option \<times> nat \<times> bool" where
  "verify_pass deps block_size digest st =
     (case st of
        (last_digest, last_off, first) \<Rightarrow>
          (Some (hl_sha512 deps ((case last_digest of None \<Rightarrow> [] | Some d \<Rightarrow> d) @ digest)),
           (if first then last_off else last_off + block_size),
           False))"

definition HashList_verify :: "'h HashListDeps \<Rightarrow> 'h HashList \<Rightarrow> bool" where
  "HashList_verify deps hs =
     (case fold (verify_pass deps (head_block_size deps (signed_head hs))) (block_hashes hs)
             (None, 0, True) of
        (None, last_off, first) \<Rightarrow> False
      | (Some last_digest, last_off, first) \<Rightarrow>
          block_verify deps (signed_head hs) last_off last_digest (list_signature hs))"

definition body_data :: "Part \<Rightarrow> bytes option" where
  "body_data part =
     (case part of Body d \<Rightarrow> Some d | ChunkBody d \<Rightarrow> Some d | _ \<Rightarrow> None)"

definition finish_load :: "'h HashListDeps \<Rightarrow> 'h \<Rightarrow> Parser \<Rightarrow> errc + 'h HashList" where
  "finish_load deps head p =
     (case hl_signature p of
        None \<Rightarrow> Inl bad_message
      | Some sg \<Rightarrow>
          if hashes p = [] then Inl bad_message
          else
            let hs = \<lparr>signed_head = head, list_signature = sg, block_hashes = hashes p\<rparr>
            in if \<not> HashList_verify deps hs then Inl bad_message else Inr hs)"

text \<open>
  The outer loop over the parts that follow the head. A body part is appended to the buffer
  and the inner loop is entered with \<^verbatim>\<open>progress\<close> false; since the inner loop has no
  normal exit, the function returns what the inner loop returns, or never returns.
\<close>

fun read_parts ::
  "'h HashListDeps \<Rightarrow> 'h \<Rightarrow> Parser \<Rightarrow> Part list \<Rightarrow> (errc + 'h HashList) option" where
  "read_parts deps head p [] = Some (finish_load deps head p)"
| "read_parts deps head p (part # parts) =
     (case body_data part of
        None \<Rightarrow> read_parts deps head p parts
      | Some d \<Rightarrow>
          (case parse_loop ((append_data d p)\<lparr>progress := False\<rparr>) of
             None \<Rightarrow> None
           | Some e \<Rightarrow> Some (Inl e)))"

definition new_parser :: Parser where
  "new_parser = \<lparr>buffer = [], magic_checked = False, hl_signature = None, hashes = [],
                  progress = False\<rparr>"

definition HashList_load ::
  "'h HashListDeps \<Rightarrow> Part list \<Rightarrow> (errc + 'h HashList) option" where
  "HashList_load deps parts =
     (case parts of
        [] \<Rightarrow> Some (Inl bad_message)
      | Head h # rest \<Rightarrow>
          (case verify_and_create deps h of
             None \<Rightarrow> Some (Inl bad_message)
           | Some head \<Rightarrow> read_parts deps head new_parser rest)
      | _ # rest \<Rightarrow> Some (Inl bad_message))"

definition demo_hash_list_deps :: "string HashListDeps" where
  "demo_hash_list_deps =
     \<lparr>verify_and_create = (\<lambda>h. Some h), head_block_size = (\<lambda>h. 65536),
      hl_sha512 = (\<lambda>bs. take 64 (bs @ replicate 64 CHR ''.'')),
      block_verify = (\<lambda>h off digest sg. True)\<rparr>"

definition demo_hash_list_body :: bytes where
  "demo_hash_list_body =
     MAGIC @ [newline] @ replicate 64 CHR ''s'' @ replicate 64 CHR ''d''"

section \<open>Atomic files: \<^verbatim>\<open>file_io.cpp\<close>\<close>

text \<open>
  A path is its list of components; the file system is the content of every regular file,
  together with the system calls issued on it so far, in order.
\<close>

type_synonym path = "string list"

datatype fs_call =
    Open path
  | Write path bytes
  | Close path
  | Fsync path
  | Rename path path
  | Remove path

record FileSystem =
  files :: "path \<rightharpoonup> bytes"
  calls :: "fs_call list"

definition parent_path :: "path \<Rightarrow> path" where
  "parent_path p = butlast p"

record temp_file =
  tf_path :: path
  tf_open :: bool
  keep_on_close :: bool

record atomic_file =
  af_temp_file :: temp_file
  af_path :: path

text \<open>
  \<^verbatim>\<open>remove_file\<close>: nothing when the path does not exist; the removal of an existing
  regular file is taken to succeed (the source ignores its error code).
\<close>

definition remove_file :: "path \<Rightarrow> FileSystem \<Rightarrow> FileSystem" where
  "remove_file p fs =
     (if files fs p = None then fs
      else fs\<lparr>files := (files fs)(p := None), calls := calls fs @ [Remove p]\<rparr>)"

definition temp_file_close :: "temp_file \<Rightarrow> FileSystem \<Rightarrow> temp_file \<times> FileSystem" where
  "temp_file_close tf fs =
     (let fs1 = (if tf_open tf then fs\<lparr>calls := calls fs @ [Close (tf_path tf)]\<rparr> else fs);
          fs2 = (if \<not> keep_on_close tf then remove_file (tf_path tf) fs1 else fs1)
      in (tf\<lparr>tf_open := False\<rparr>, fs2))"

text \<open>
  \<^verbatim>\<open>open_or_create\<close> opens with \<^verbatim>\<open>O_RDWR | O_CREAT\<close>: an existing file keeps its
  content, a missing one is created empty. \<open>ok\<close> says whether the system call succeeds.
\<close>

definition open_or_create :: "bool \<Rightarrow> path \<Rightarrow> FileSystem \<Rightarrow> FileSystem option" where
  "open_or_create ok p fs =
     (if \<not> ok then None
      else Some (fs\<lparr>files := (case files fs p of None \<Rightarrow> (files fs)(p \<mapsto> [])
                                 | Some c \<Rightarrow> files fs),
                    calls := calls fs @ [Open p]\<rparr>))"

text \<open>
  \<^verbatim>\<open>mktemp\<close>: \<open>unique\<close> is the name that \<^verbatim>\<open>fs::unique_path\<close> draws from the model,
  or none when it fails. Modelled from the spec: the class \<^verbatim>\<open>temp_file\<close> is declared in
  a header that is not among the sources; the comment in \<^verbatim>\<open>commit\<close> says that an atomic
  file destroyed after no commit removes its temporary file, so a fresh temporary file does
  not keep its file on close.
\<close>

definition mktemp ::
  "string option \<Rightarrow> bool \<Rightarrow> path \<Rightarrow> FileSystem \<Rightarrow> (temp_file \<times> FileSystem) option" where
  "mktemp unique ok dir fs =
     (case unique of
        None \<Rightarrow> None
      | Some name \<Rightarrow>
          (case open_or_create ok (dir @ [name]) fs of
             None \<Rightarrow> None
           | Some fs' \<Rightarrow>
               Some (\<lparr>tf_path = dir @ [name], tf_open = True, keep_on_close = False\<rparr>, fs')))"

definition mkatomic ::
  "string option \<Rightarrow> bool \<Rightarrow> path \<Rightarrow> FileSystem \<Rightarrow> (atomic_file \<times> FileSystem) option" where
  "mkatomic unique ok p fs =
     (case mktemp unique ok (parent_path p) fs of
        None \<Rightarrow> None
      | Some (tf, fs') \<Rightarrow> Some (\<lparr>af_temp_file = tf, af_path = p\<rparr>, fs'))"

text \<open>
  \<^verbatim>\<open>fs::rename\<close>: \<open>ok\<close> says whether the system call is allowed to succeed; it fails
  anyway when the old path does not exist. On success the new path holds the old file and
  the old path is gone.
\<close>

definition rename_file ::
  "bool \<Rightarrow> path \<Rightarrow> path \<Rightarrow> FileSystem \<Rightarrow> FileSystem \<times> errc option" where
  "rename_file ok old new fs =
     (let fs1 = fs\<lparr>calls := calls fs @ [Rename old new]\<rparr>
      in case files fs old of
           None \<Rightarrow> (fs1, Some no_message)
         | Some c \<Rightarrow>
             if ok then (fs1\<lparr>files := ((files fs)(old := None))(new \<mapsto> c)\<rparr>, None)
             else (fs1, Some no_message))"

definition commit ::
  "bool \<Rightarrow> atomic_file \<Rightarrow> FileSystem \<Rightarrow> atomic_file \<times> FileSystem \<times> errc option" where
  "commit ok af fs =
     (let tf1 = (af_temp_file af)\<lparr>keep_on_close := True\<rparr>;
          (tf2, fs1) = temp_file_close tf1 fs;
          (fs2, ec) = rename_file ok (tf_path tf2) (af_path af) fs1;
          tf3 = tf2\<lparr>keep_on_close := False\<rparr>
      in (af\<lparr>af_temp_file := tf3\<rparr>, fs2, ec))"

text \<open>
  Modelled from the spec: writing through an atomic file and destroying it are declared in
  headers that are not among the sources. Data written goes to the temporary file while it
  is open; destroying the atomic file closes its temporary file.
\<close>

definition af_write :: "bytes \<Rightarrow> atomic_file \<Rightarrow> FileSystem \<Rightarrow> FileSystem" where
  "af_write d af fs =
     (let p = tf_path (af_temp_file af)
      in if tf_open (af_temp_file af)
         then fs\<lparr>files := (files fs)(p \<mapsto> (case files fs p of None \<Rightarrow> d | Some c \<Rightarrow> c @ d)),
                 calls := calls fs @ [Write p d]\<rparr>
         else fs)"

definition af_destroy :: "atomic_file \<Rightarrow> FileSystem \<Rightarrow> FileSystem" where
  "af_destroy af fs = snd (temp_file_close (af_temp_file af) fs)"

text \<open>What a holder of the atomic file may do with it before destroying it.\<close>

datatype af_op = OpWrite bytes | OpCommit bool

fun run_op :: "af_op \<Rightarrow> atomic_file \<times> FileSystem \<Rightarrow> atomic_file \<times> FileSystem" where
  "run_op (OpWrite d) (af, fs) = (af, af_write d af fs)"
| "run_op (OpCommit ok) (af, fs) = (case commit ok af fs of (af', fs', ec) \<Rightarrow> (af', fs'))"

fun run_ops :: "af_op list \<Rightarrow> atomic_file \<times> FileSystem \<Rightarrow> atomic_file \<times> FileSystem" where
  "run_ops [] s = s"
| "run_ops (op # ops) s = run_ops ops (run_op op s)"

definition empty_fs :: FileSystem where
  "empty_fs = \<lparr>files = Map.empty, calls = []\<rparr>"

definition demo_path :: path where
  "demo_path = [''store'', ''ab'', ''cdef'']"

definition demo_tmp :: path where
  "demo_tmp = [''store'', ''ab'', ''tmp.1234'']"

text \<open>
  What stays true of an atomic file through writes and commits: its two paths, and that its
  temporary file is not kept on close.
\<close>

definition af_inv :: "path \<Rightarrow> path \<Rightarrow> atomic_file \<Rightarrow> bool" where
  "af_inv tmp p af \<longleftrightarrow>
     tf_path (af_temp_file af) = tmp \<and> af_path af = p \<and> \<not> keep_on_close (af_temp_file af)"

text \<open>
  Storing an entry as the cache client does (\<^verbatim>\<open>store\<close>): make the atomic file, flush
  the response into it, commit, and let the atomic file go out of scope.
\<close>

definition store_entry ::
  "string option \<Rightarrow> bool \<Rightarrow> bool \<Rightarrow> path \<Rightarrow> bytes \<Rightarrow> FileSystem \<Rightarrow>
   (FileSystem \<times> errc option) option" where
  "store_entry unique ok rename_ok p d fs =
     (case mkatomic unique ok p fs of
        None \<Rightarrow> None
      | Some (af, fs0) \<Rightarrow>
          (case commit rename_ok af (af_write d af fs0) of
             (af', fs2, ec) \<Rightarrow> Some (af_destroy af' fs2, ec)))"

section \<open>Reply timeouts: \<^verbatim>\<open>Stat\<close> and \<^verbatim>\<open>send_query_await_reply\<close> (\<^verbatim>\<open>dht.cpp\<close>)\<close>
































section \<open>Signed responses: \<^verbatim>\<open>http_sign.cpp\<close>\<close>

text \<open>
  SHA-512, SHA-256, Ed25519, Base64 and the parser of chunk extensions come from libraries;
  the making of the signed head and of the trailer is not needed below. All of them are
  collaborators of the readers. So is the condition on which \<^verbatim>\<open>put\<close> of the quantized
  buffer throws \<^verbatim>\<open>std::length_error\<close>, given the size of the buffer, the bytes it holds
  and the bytes put: the verifying reader catches this exception, and the header that decides
  when it is thrown is not among the sources.
\<close>

record Crypto =
  sha512 :: "bytes \<Rightarrow> bytes"
  sha256 :: "bytes \<Rightarrow> bytes"
  sk_sign :: "string \<Rightarrow> bytes"
  pk_verify :: "string \<Rightarrow> bytes \<Rightarrow> bool"
  base64_encode :: "bytes \<Rightarrow> string"
  base64_decode :: "string \<Rightarrow> bytes"
  chunk_extensions_parse :: "string \<Rightarrow> (string \<times> string) list"
  http_injection_head :: "string \<Rightarrow> string option"
  http_injection_trailer :: "string \<Rightarrow> string \<Rightarrow> nat \<Rightarrow> bytes \<Rightarrow> string"
  head_verify :: "string \<Rightarrow> (string \<times> nat \<times> nat option) option"
  to_cache_trailer :: "string \<Rightarrow> string"
  trailer_verify :: "string \<Rightarrow> bool"
  body_ok :: "nat \<Rightarrow> bytes \<Rightarrow> bool"
  put_overflows :: "nat \<Rightarrow> bytes \<Rightarrow> bytes \<Rightarrow> bool"

text \<open>
  A hash object is the bytes fed to it so far: \<^verbatim>\<open>update\<close> appends, \<^verbatim>\<open>close\<close> hashes
  them, and assigning \<^verbatim>\<open>{}\<close> starts again from nothing.
\<close>

type_synonym hasher = bytes

definition hash_update :: "bytes \<Rightarrow> hasher \<Rightarrow> hasher" where
  "hash_update d h = h @ d"

text \<open>
  Modelled from the spec: the quantized buffer is declared in a header that is not among the
  sources. It gathers the bytes put into it into blocks of its size: \<^verbatim>\<open>put\<close> appends the
  bytes; \<^verbatim>\<open>get\<close> hands out the first block once a full block is buffered and nothing
  before; \<^verbatim>\<open>get_rest\<close> hands out what is buffered at the end of the input, a block at
  a time as long as more than a block is left. The sources show that \<^verbatim>\<open>put\<close> can throw
  \<^verbatim>\<open>std::length_error\<close>: the verifying reader catches it and reports chunk data that
  overflows the boundary of a data block, and the signing reader lets it pass. When it is
  thrown is left to the collaborator \<open>put_overflows\<close>.
\<close>

record quantized_buffer =
  qb_size :: nat
  qb_data :: bytes

definition qb_put :: "Crypto \<Rightarrow> bytes \<Rightarrow> quantized_buffer \<Rightarrow> quantized_buffer option" where
  "qb_put c d q =
     (if put_overflows c (qb_size q) (qb_data q) d then None
      else Some (q\<lparr>qb_data := qb_data q @ d\<rparr>))"

definition qb_get :: "quantized_buffer \<Rightarrow> bytes \<times> quantized_buffer" where
  "qb_get q =
     (if length (qb_data q) < qb_size q then ([], q)
      else (take (qb_size q) (qb_data q), q\<lparr>qb_data := drop (qb_size q) (qb_data q)\<rparr>))"

definition qb_get_rest :: "quantized_buffer \<Rightarrow> bytes \<times> quantized_buffer" where
  "qb_get_rest q =
     (if 0 < qb_size q \<and> qb_size q < length (qb_data q)
      then (take (qb_size q) (qb_data q), q\<lparr>qb_data := drop (qb_size q) (qb_data q)\<rparr>)
      else (qb_data q, q\<lparr>qb_data := []\<rparr>))"

subsection \<open>Signing strings and chunk extensions\<close>

definition response_block_signature_ext :: string where
  "response_block_signature_ext = ''ouisig''"

definition response_block_chain_hash_ext :: string where
  "response_block_chain_hash_ext = ''ouihash''"

definition block_sig_str :: "string \<Rightarrow> nat \<Rightarrow> bytes \<Rightarrow> string" where
  "block_sig_str injection_id block_offset block_digest =
     injection_id @ [CHR 0x00] @ dec_nat block_offset @ [CHR 0x00] @ block_digest"

definition block_chunk_ext :: "Crypto \<Rightarrow> bytes option \<Rightarrow> bytes option \<Rightarrow> string" where
  "block_chunk_ext c sig prev_digest =
     (case sig of
        None \<Rightarrow> []
      | Some s \<Rightarrow> '';'' @ response_block_signature_ext @ ''='' @ [CHR 0x22]
                  @ base64_encode c s @ [CHR 0x22])
     @ (case prev_digest of
          None \<Rightarrow> []
        | Some d \<Rightarrow> '';'' @ response_block_chain_hash_ext @ ''='' @ [CHR 0x22]
                    @ base64_encode c d @ [CHR 0x22])"

text \<open>The overload that signs: it passes no previous digest on.\<close>

definition block_chunk_ext_signed :: "Crypto \<Rightarrow> string \<Rightarrow> nat \<Rightarrow> bytes \<Rightarrow> string" where
  "block_chunk_ext_signed c injection_id offset digest =
     block_chunk_ext c (Some (sk_sign c (block_sig_str injection_id offset digest))) None"

definition block_arrattr_from_exts :: "Crypto \<Rightarrow> nat \<Rightarrow> string \<Rightarrow> string \<Rightarrow> bytes option" where
  "block_arrattr_from_exts c array_size xs ext_name =
     (if xs = [] then None
      else
        (case find (\<lambda>x. fst x = ext_name) (chunk_extensions_parse c xs) of
           None \<Rightarrow> None
         | Some x \<Rightarrow>
             let decoded_arr = base64_decode c (snd x)
             in if length decoded_arr \<noteq> array_size then None else Some decoded_arr))"

definition block_dig_from_exts :: "Crypto \<Rightarrow> string \<Rightarrow> bytes option" where
  "block_dig_from_exts c xs = block_arrattr_from_exts c 64 xs response_block_chain_hash_ext"

definition block_sig_from_exts :: "Crypto \<Rightarrow> string \<Rightarrow> bytes option" where
  "block_sig_from_exts c xs = block_arrattr_from_exts c 64 xs response_block_signature_ext"

subsection \<open>The signing reader\<close>

record SigningReader =
  sr_injection_id :: string
  do_inject :: bool
  outh :: string
  sr_body_length :: nat
  sr_block_offset :: nat
  block_size_last :: nat
  sr_body_hash :: hasher
  sr_block_hash :: hasher
  sr_qbuf :: quantized_buffer
  sr_pending_parts :: "Part list"
  trailer_in :: string
  sr_is_done :: bool

text \<open>
  The reader as its constructor leaves it. The size of a data block,
  \<^verbatim>\<open>http_::response_data_block\<close>, is a constant declared outside the sources.
\<close>

definition new_SigningReader :: "string \<Rightarrow> nat \<Rightarrow> SigningReader" where
  "new_SigningReader injection_id response_data_block =
     \<lparr>sr_injection_id = injection_id, do_inject = False, outh = [],
      sr_body_length = 0, sr_block_offset = 0, block_size_last = 0, sr_body_hash = [],
      sr_block_hash = [], sr_qbuf = \<lparr>qb_size = response_data_block, qb_data = []\<rparr>,
      sr_pending_parts = [], trailer_in = [], sr_is_done = False\<rparr>"

text \<open>
  \<^verbatim>\<open>process_part\<close> for body data. The answer is the error thrown, or the reader after
  the call with the part returned, if any.
\<close>

definition sr_process_data ::
  "Crypto \<Rightarrow> bytes \<Rightarrow> SigningReader \<Rightarrow> errc + (Part option \<times> SigningReader)" where
  "sr_process_data c inbuf r =
     (let r1 = r\<lparr>sr_body_length := sr_body_length r + length inbuf,
                 sr_body_hash := (if do_inject r then hash_update inbuf (sr_body_hash r)
                                  else sr_body_hash r)\<rparr>
      in case qb_put c inbuf (sr_qbuf r1) of
           None \<Rightarrow> Inl length_error
         | Some q1 \<Rightarrow>
             let (block_buf, q2) = (if length inbuf > 0 then qb_get q1 else qb_get_rest q1);
                 r2 = r1\<lparr>sr_qbuf := q2\<rparr>
             in if length block_buf = 0 then Inr (None, r2)
                else
                  let r3 = r2\<lparr>sr_pending_parts := sr_pending_parts r2 @ [ChunkBody block_buf]\<rparr>
                  in if do_inject r3
                     then
                       let exts = (if sr_block_offset r3 > 0
                                   then block_chunk_ext_signed c (sr_injection_id r3)
                                          (sr_block_offset r3 - block_size_last r3)
                                          (sha512 c (sr_block_hash r3))
                                   else []);
                           h1 = (if sr_block_offset r3 > 0
                                 then hash_update (sha512 c (sr_block_hash r3)) []
                                 else sr_block_hash r3);
                           h2 = hash_update block_buf h1
                       in Inr (Some (ChunkHdr (length block_buf) exts),
                               r3\<lparr>sr_block_hash := h2,
                                  sr_block_offset := sr_block_offset r3 + length block_buf,
                                  block_size_last := length block_buf\<rparr>)
                     else Inr (Some (ChunkHdr (length block_buf) []), r3))"

definition sr_process_head ::
  "Crypto \<Rightarrow> string \<Rightarrow> SigningReader \<Rightarrow> errc + (Part option \<times> SigningReader)" where
  "sr_process_head c inh r =
     (case http_injection_head c inh of
        None \<Rightarrow> Inr (Some (Head inh), r)
      | Some h \<Rightarrow> Inr (Some (Head h), r\<lparr>do_inject := True, outh := h\<rparr>))"

fun sr_process_part ::
  "Crypto \<Rightarrow> Part \<Rightarrow> SigningReader \<Rightarrow> errc + (Part option \<times> SigningReader)" where
  "sr_process_part c (Head inh) r = sr_process_head c inh r"
| "sr_process_part c (ChunkHdr n exts) r = Inr (None, r)"
| "sr_process_part c (ChunkBody d) r = sr_process_data c d r"
| "sr_process_part c (Body d) r = sr_process_data c d r"
| "sr_process_part c (Trailer intr) r =
     Inr (None, r\<lparr>trailer_in := (if do_inject r then to_cache_trailer c intr else intr)\<rparr>)"

definition sr_process_end ::
  "Crypto \<Rightarrow> SigningReader \<Rightarrow> errc + (Part option \<times> SigningReader)" where
  "sr_process_end c r =
     (if sr_is_done r then Inr (None, r)
      else
        (case sr_process_data c [] r of
           Inl e \<Rightarrow> Inl e
         | Inr (Some last_block_ch, r1) \<Rightarrow> Inr (Some last_block_ch, r1)
         | Inr (None, r1) \<Rightarrow>
             let r2 = r1\<lparr>sr_is_done := True\<rparr>
             in if \<not> do_inject r2
                then Inr (Some (ChunkHdr 0 []),
                          r2\<lparr>sr_pending_parts := sr_pending_parts r2 @ [Trailer (trailer_in r2)]\<rparr>)
                else
                  let block_digest = sha512 c (sr_block_hash r2);
                      last_ch = ChunkHdr 0 (block_chunk_ext_signed c (sr_injection_id r2)
                                              (sr_block_offset r2 - block_size_last r2)
                                              block_digest);
                      trailer = http_injection_trailer c (outh r2) (trailer_in r2)
                                  (sr_body_length r2) (sha256 c (sr_body_hash r2))
                  in Inr (Some last_ch,
                          r2\<lparr>sr_pending_parts := sr_pending_parts r2 @ [Trailer trailer]\<rparr>)))"

text \<open>
  \<^verbatim>\<open>async_read_part\<close> hands out the pending parts before it reads on. So a part returned
  by \<^verbatim>\<open>process_part\<close> reaches the caller followed by the parts that the call has left
  pending, and then the pending queue is empty again.
\<close>

definition sr_emitted :: "Part option \<times> SigningReader \<Rightarrow> Part list \<times> SigningReader" where
  "sr_emitted pr =
     ((case fst pr of None \<Rightarrow> [] | Some p \<Rightarrow> [p]) @ sr_pending_parts (snd pr),
      (snd pr)\<lparr>sr_pending_parts := []\<rparr>)"

text \<open>
  Once the input has ended, \<^verbatim>\<open>async_read_part\<close> calls \<^verbatim>\<open>process_end\<close> each time it
  is called, until that returns no part. \<open>end_rank\<close> bounds the calls that can still
  return one.
\<close>

definition end_rank :: "SigningReader \<Rightarrow> nat" where
  "end_rank r = (if sr_is_done r then 0 else Suc (length (qb_data (sr_qbuf r))))"

function sr_read_end :: "Crypto \<Rightarrow> SigningReader \<Rightarrow> errc option \<times> Part list" where
  "sr_read_end c r =
     (case sr_process_end c r of
        Inl e \<Rightarrow> (Some e, [])
      | Inr (None, r') \<Rightarrow> (None, [])
      | Inr (Some p, r') \<Rightarrow>
          (case sr_read_end c (snd (sr_emitted (Some p, r'))) of
             (e, rest) \<Rightarrow> (e, fst (sr_emitted (Some p, r')) @ rest)))"
  by pat_completeness auto
termination
  by (relation "measure (\<lambda>(c, r). end_rank r)")
     (auto simp: sr_emitted_def end_rank_def sr_process_end_def sr_process_data_def
        qb_put_def qb_get_rest_def Let_def
      split: if_splits option.splits sum.splits prod.splits)

declare sr_read_end.simps [simp del]

text \<open>
  All the parts that the caller reads from the signing reader, for the parts that the reader
  reads itself, up to the first error, and that error.
\<close>

fun sr_read_all :: "Crypto \<Rightarrow> SigningReader \<Rightarrow> Part list \<Rightarrow> errc option \<times> Part list" where
  "sr_read_all c r [] = sr_read_end c r"
| "sr_read_all c r (p # ps) =
     (case sr_process_part c p r of
        Inl e \<Rightarrow> (Some e, [])
      | Inr pr \<Rightarrow>
          (case sr_read_all c (snd (sr_emitted pr)) ps of
             (e, rest) \<Rightarrow> (e, fst (sr_emitted pr) @ rest)))"

subsection \<open>The verifying reader\<close>

record VerifyingReader =
  vr_injection_id :: string
  bs_size :: nat
  range_begin :: "nat option"
  vr_block_offset :: nat
  vr_qbuf :: quantized_buffer
  vr_block_hash :: hasher
  prev_block_sig :: "bytes option"
  block_dig :: "bytes option"
  prev_block_dig :: "bytes option"
  vr_pending_parts :: "Part list"
  vr_body_length :: nat
  vr_body_hash :: hasher

text \<open>
  A call of \<^verbatim>\<open>process_part\<close> fails with an error code or returns a part or none; either
  way it leaves the reader changed.
\<close>

datatype 'a step = Failed errc 'a | Stepped "Part option" 'a

text \<open>
  \<^verbatim>\<open>process_part\<close> for the head checks the head signature and reads the injection id, the
  block size and the range of a partial response; \<^verbatim>\<open>head_verify\<close> stands for all of it.
\<close>

definition vr_process_head :: "Crypto \<Rightarrow> string \<Rightarrow> VerifyingReader \<Rightarrow> VerifyingReader step" where
  "vr_process_head c inh r =
     (case head_verify c inh of
        None \<Rightarrow> Failed no_message r
      | Some (inj_id, block_size, rb) \<Rightarrow>
          Stepped (Some (Head inh))
            (r\<lparr>vr_injection_id := inj_id, bs_size := block_size, range_begin := rb,
               vr_block_offset := (case rb of None \<Rightarrow> vr_block_offset r | Some b \<Rightarrow> b),
               vr_qbuf := \<lparr>qb_size = block_size, qb_data = []\<rparr>\<rparr>))"

definition vr_process_chunk_hdr ::
  "Crypto \<Rightarrow> nat \<Rightarrow> string \<Rightarrow> VerifyingReader \<Rightarrow> VerifyingReader step" where
  "vr_process_chunk_hdr c inch_size inch_exts r =
     (if inch_size > bs_size r then Failed bad_message r
      else
        let (block_buf0, q0) = qb_get (vr_qbuf r)
        in if length block_buf0 = 0 \<and> inch_size \<noteq> 0 then Stepped None (r\<lparr>vr_qbuf := q0\<rparr>)
           else
             let (block_buf, q1) = (if length block_buf0 = 0 then qb_get_rest q0
                                    else (block_buf0, q0));
                 r1 = r\<lparr>vr_qbuf := q1\<rparr>
             in case block_sig_from_exts c inch_exts of
                  None \<Rightarrow> Failed bad_message r1
                | Some block_sig \<Rightarrow>
                    let seeded = (range_begin r1 \<noteq> None \<and> vr_block_offset r1 > 0
                                  \<and> range_begin r1 = Some (vr_block_offset r1));
                        seed = (if seeded then block_dig_from_exts c inch_exts else None)
                    in if seeded \<and> seed = None
                       then Failed bad_message (r1\<lparr>prev_block_dig := None\<rparr>)
                       else
                         let r2 = (case seed of
                                     None \<Rightarrow> r1
                                   | Some d \<Rightarrow> r1\<lparr>prev_block_dig := Some d,
                                                  vr_block_hash := hash_update d (vr_block_hash r1)\<rparr>);
                             h = hash_update block_buf (vr_block_hash r2);
                             block_digest = sha512 c h;
                             bsig_str = block_sig_str (vr_injection_id r2)
                                          (vr_block_offset r2) block_digest
                         in if \<not> pk_verify c bsig_str block_sig
                            then Failed bad_message (r2\<lparr>vr_block_hash := h\<rparr>)
                            else
                              let prev_prev_block_sig = prev_block_sig r2;
                                  prev_prev_block_dig = prev_block_dig r2;
                                  r3 = r2\<lparr>prev_block_sig := Some block_sig,
                                          vr_block_hash := hash_update block_digest [],
                                          vr_block_offset := vr_block_offset r2 + length block_buf,
                                          prev_block_dig := block_dig r2,
                                          block_dig := Some block_digest\<rparr>
                              in if length block_buf = 0 then Stepped None r3
                                 else Stepped
                                        (Some (ChunkHdr (length block_buf)
                                                 (block_chunk_ext c prev_prev_block_sig
                                                    prev_prev_block_dig)))
                                        (r3\<lparr>vr_pending_parts :=
                                              vr_pending_parts r3 @ [ChunkBody block_buf]\<rparr>))"

definition vr_process_data :: "Crypto \<Rightarrow> bytes \<Rightarrow> VerifyingReader \<Rightarrow> VerifyingReader step" where
  "vr_process_data c ind r =
     (let r1 = r\<lparr>vr_body_length := vr_body_length r + length ind,
                 vr_body_hash := hash_update ind (vr_body_hash r)\<rparr>
      in case qb_put c ind (vr_qbuf r1) of
           None \<Rightarrow> Failed bad_message r1
         | Some q \<Rightarrow> Stepped None (r1\<lparr>vr_qbuf := q\<rparr>))"

definition vr_process_trailer ::
  "Crypto \<Rightarrow> string \<Rightarrow> VerifyingReader \<Rightarrow> VerifyingReader step" where
  "vr_process_trailer c intr r =
     (if \<not> trailer_verify c intr then Failed bad_message r
      else Stepped (Some (ChunkHdr 0 (block_chunk_ext c (prev_block_sig r) (prev_block_dig r))))
             (r\<lparr>vr_pending_parts := vr_pending_parts r @ [Trailer intr]\<rparr>))"

fun vr_process_part :: "Crypto \<Rightarrow> Part \<Rightarrow> VerifyingReader \<Rightarrow> VerifyingReader step" where
  "vr_process_part c (Head inh) r = vr_process_head c inh r"
| "vr_process_part c (ChunkHdr n exts) r = vr_process_chunk_hdr c n exts r"
| "vr_process_part c (ChunkBody d) r = vr_process_data c d r"
| "vr_process_part c (Body d) r = vr_process_data c d r"
| "vr_process_part c (Trailer intr) r = vr_process_trailer c intr r"

text \<open>
  \<^verbatim>\<open>async_read_part\<close>: the part that the inner reader has parsed goes through
  \<^verbatim>\<open>process_part\<close>; once the inner reader is done, which it is when it has delivered the
  trailer, the length and the digest of the body are checked (\<^verbatim>\<open>check_body\<close>, here
  \<open>body_ok\<close>), and a failure takes the place of the part.
\<close>

definition vr_async_read_part ::
  "Crypto \<Rightarrow> Part \<Rightarrow> VerifyingReader \<Rightarrow> VerifyingReader step" where
  "vr_async_read_part c p r =
     (case vr_process_part c p r of
        Failed e r' \<Rightarrow> Failed e r'
      | Stepped po r' \<Rightarrow>
          (case p of
             Trailer intr \<Rightarrow>
               if body_ok c (vr_body_length r') (vr_body_hash r') then Stepped po r'
               else Failed bad_message r'
           | _ \<Rightarrow> Stepped po r'))"

text \<open>
  The parts delivered to the caller for the parts that the inner reader parses, up to the
  first error, and that error. As in the signing reader, a part returned is followed by the
  parts left pending.
\<close>

fun vr_read_all :: "Crypto \<Rightarrow> VerifyingReader \<Rightarrow> Part list \<Rightarrow> errc option \<times> Part list" where
  "vr_read_all c r [] = (None, [])"
| "vr_read_all c r (p # ps) =
     (case vr_async_read_part c p r of
        Failed e r' \<Rightarrow> (Some e, [])
      | Stepped po r' \<Rightarrow>
          (case vr_read_all c (r'\<lparr>vr_pending_parts := []\<rparr>) ps of
             (e, rest) \<Rightarrow>
               (e, (case po of None \<Rightarrow> [] | Some x \<Rightarrow> [x]) @ vr_pending_parts r' @ rest)))"

subsection \<open>The chain of block hashes\<close>

text \<open>
  The chain as the readers compute it: the hash of a block is the SHA-512 of the hash of the
  block before it followed by the bytes of the block, and of the bytes of the block alone
  for the first block. \<open>chain_rev\<close> takes the blocks last first.
\<close>

fun chain_rev :: "Crypto \<Rightarrow> bytes list \<Rightarrow> bytes" where
  "chain_rev c [] = []"
| "chain_rev c (b # older) = sha512 c (chain_rev c older @ b)"

definition chain :: "Crypto \<Rightarrow> bytes list \<Rightarrow> bytes" where
  "chain c blocks = chain_rev c (rev blocks)"




text \<open>The offset of the last of the blocks: the lengths of the blocks before it.\<close>

definition last_offset :: "bytes list \<Rightarrow> nat" where
  "last_offset blocks = sum_list (map length (butlast blocks))"

text \<open>
  The chunks as the signing reader sends them, for the blocks sent before and the blocks to
  send: each block in a chunk of its own, whose header carries the signature of the block
  before it, if there is one, and nothing else.
\<close>

fun signed_chunks :: "Crypto \<Rightarrow> string \<Rightarrow> bytes list \<Rightarrow> bytes list \<Rightarrow> Part list" where
  "signed_chunks c inj_id prev [] = []"
| "signed_chunks c inj_id prev (b # rest) =
     ChunkHdr (length b)
       (if prev = [] then []
        else block_chunk_ext c
               (Some (sk_sign c (block_sig_str inj_id (last_offset prev) (chain c prev)))) None)
     # ChunkBody b
     # signed_chunks c inj_id (prev @ [b]) rest"

definition last_chunk :: "Crypto \<Rightarrow> string \<Rightarrow> bytes list \<Rightarrow> Part" where
  "last_chunk c inj_id blocks =
     ChunkHdr 0
       (block_chunk_ext c
          (Some (sk_sign c (block_sig_str inj_id (last_offset blocks)
                              (if blocks = [] then sha512 c [] else chain c blocks)))) None)"

definition chunk_bodies :: "Part list \<Rightarrow> bytes list" where
  "chunk_bodies parts = concat (map (\<lambda>p. case p of ChunkBody b \<Rightarrow> [b] | _ \<Rightarrow> []) parts)"

definition chunk_exts :: "Part list \<Rightarrow> string list" where
  "chunk_exts parts = concat (map (\<lambda>p. case p of ChunkHdr n x \<Rightarrow> [x] | _ \<Rightarrow> []) parts)"

subsection \<open>What the readers keep true between two parts\<close>

definition is_head :: "Part \<Rightarrow> bool" where
  "is_head p = (case p of Head h \<Rightarrow> True | _ \<Rightarrow> False)"

text \<open>
  The signing reader after it has sent the blocks \<open>prev\<close>: it is injecting, nothing is
  pending, the offset is behind these blocks, and the hash object has been fed the hash of
  the blocks before the last one and the last block.
\<close>

definition sr_inv :: "Crypto \<Rightarrow> bytes list \<Rightarrow> SigningReader \<Rightarrow> bool" where
  "sr_inv c prev r \<longleftrightarrow>
     do_inject r \<and> \<not> sr_is_done r \<and> sr_pending_parts r = [] \<and> [] \<notin> set prev
     \<and> sr_block_offset r = sum_list (map length prev)
     \<and> block_size_last r = (if prev = [] then 0 else length (last prev))
     \<and> sr_block_hash r = (if prev = [] then [] else chain c (butlast prev) @ last prev)"

text \<open>
  The signing reader that is not injecting, because the head it read cannot be cached: it
  passes the response on, and nothing is pending between two parts.
\<close>

definition sr_proxy_inv :: "SigningReader \<Rightarrow> bool" where
  "sr_proxy_inv r \<longleftrightarrow> \<not> do_inject r \<and> \<not> sr_is_done r \<and> sr_pending_parts r = []"

text \<open>The chunks of blocks passed on without signatures: the chunk headers have no extensions.\<close>

fun plain_chunks :: "bytes list \<Rightarrow> Part list" where
  "plain_chunks [] = []"
| "plain_chunks (b # rest) = ChunkHdr (length b) [] # ChunkBody b # plain_chunks rest"

text \<open>
  What a chunk header makes the verifying reader check, read off \<^verbatim>\<open>process_part\<close>: the
  block it takes from the buffer (the full block if there is one, what is buffered if the
  header is that of the last chunk, none otherwise), and the chain hash it computes for the
  block, which on the first block of a partial response starts from the \<^verbatim>\<open>ouihash\<close> of
  the header.
\<close>

definition vr_next_block :: "nat \<Rightarrow> VerifyingReader \<Rightarrow> (bytes \<times> quantized_buffer) option" where
  "vr_next_block inch_size r =
     (let (block_buf0, q0) = qb_get (vr_qbuf r)
      in if length block_buf0 = 0 \<and> inch_size \<noteq> 0 then None
         else Some (if length block_buf0 = 0 then qb_get_rest q0 else (block_buf0, q0)))"

definition vr_chain_hash :: "Crypto \<Rightarrow> string \<Rightarrow> bytes \<Rightarrow> VerifyingReader \<Rightarrow> bytes option" where
  "vr_chain_hash c inch_exts block r =
     (if range_begin r \<noteq> None \<and> vr_block_offset r > 0
         \<and> range_begin r = Some (vr_block_offset r)
      then (case block_dig_from_exts c inch_exts of
              None \<Rightarrow> None
            | Some d \<Rightarrow> Some (sha512 c (vr_block_hash r @ d @ block)))
      else Some (sha512 c (vr_block_hash r @ block)))"

text \<open>
  The chunk extensions of the signing reader's stream, one for each chunk header in turn: an
  extension with the \<^verbatim>\<open>ouisig\<close> of the block before and nothing else, and no extension
  on the first block.
\<close>

definition ouisig_only :: "Crypto \<Rightarrow> bytes \<Rightarrow> string" where
  "ouisig_only c sg = '';ouisig='' @ [CHR 0x22] @ base64_encode c sg @ [CHR 0x22]"

fun signed_exts :: "Crypto \<Rightarrow> string \<Rightarrow> bytes list \<Rightarrow> bytes list \<Rightarrow> string list" where
  "signed_exts c inj_id prev [] =
     [ouisig_only c (sk_sign c (block_sig_str inj_id (last_offset prev)
                                  (if prev = [] then sha512 c [] else chain c prev)))]"
| "signed_exts c inj_id prev (b # rest) =
     (if prev = [] then []
      else ouisig_only c (sk_sign c (block_sig_str inj_id (last_offset prev) (chain c prev))))
     # signed_exts c inj_id (prev @ [b]) rest"

text \<open>
  The bytes of the body in a part that the signing reader reads, and what it is for a chunk
  to be a block of the buffer: not empty and not longer than the size of the buffer.
\<close>

definition part_bytes :: "Part \<Rightarrow> bytes" where
  "part_bytes p = (case p of Body d \<Rightarrow> d | ChunkBody d \<Rightarrow> d | _ \<Rightarrow> [])"

definition block_sized :: "nat \<Rightarrow> bytes \<Rightarrow> bool" where
  "block_sized n b \<longleftrightarrow> b \<noteq> [] \<and> (0 < n \<longrightarrow> length b \<le> n)"

subsection \<open>Collaborators and readers to run\<close>

text \<open>
  Stand-ins for the libraries, to run the readers on: the hash of some bytes is a mark, the
  bytes without the filling of earlier hashes, and a filling, cut to the length of the digest; the signature of a string is its last
  64 bytes, which in a signing string are the chain hash; Base64 leaves the bytes as they are;
  the chunk extensions are cut at the semicolons, each into its name and its quoted value;
  every head can be cached; the buffer never throws.
\<close>

definition demo_sha512 :: "bytes \<Rightarrow> bytes" where
  "demo_sha512 bs =
     take 64 (CHR ''#'' # filter (\<lambda>ch. ch \<noteq> CHR ''.'') bs @ replicate 64 CHR ''.'')"

definition demo_sign :: "string \<Rightarrow> bytes" where
  "demo_sign s = drop (length s - 64) s"

definition split_on :: "char \<Rightarrow> string \<Rightarrow> string list" where
  "split_on d s = foldr (\<lambda>ch acc. if ch = d then [] # acc else (ch # hd acc) # tl acc) s [[]]"

definition unquote :: "string \<Rightarrow> string" where
  "unquote v = (if 2 \<le> length v \<and> hd v = CHR 0x22 \<and> last v = CHR 0x22 then butlast (tl v) else v)"

definition demo_chunk_extensions_parse :: "string \<Rightarrow> (string \<times> string) list" where
  "demo_chunk_extensions_parse xs =
     map (\<lambda>item. (takeWhile (\<lambda>ch. ch \<noteq> CHR ''='') item,
                   unquote (drop 1 (dropWhile (\<lambda>ch. ch \<noteq> CHR ''='') item))))
       (filter (\<lambda>item. item \<noteq> []) (split_on CHR '';'' xs))"

definition demo_crypto :: Crypto where
  "demo_crypto =
     \<lparr>sha512 = demo_sha512,
      sha256 = (\<lambda>bs. take 32 (CHR ''#'' # bs @ replicate 32 CHR ''.'')),
      sk_sign = demo_sign,
      pk_verify = (\<lambda>s sg. sg = demo_sign s),
      base64_encode = (\<lambda>bs. bs),
      base64_decode = (\<lambda>s. s),
      chunk_extensions_parse = demo_chunk_extensions_parse,
      http_injection_head = (\<lambda>h. Some h),
      http_injection_trailer = (\<lambda>h t n d. ''X-Ouinet-Data-Size: '' @ dec_nat n),
      head_verify = (\<lambda>h. Some (''inj'', 4, None)),
      to_cache_trailer = (\<lambda>t. t),
      trailer_verify = (\<lambda>t. True),
      body_ok = (\<lambda>n bs. True),
      put_overflows = (\<lambda>n buffered d. False)\<rparr>"

text \<open>
  A signing reader with blocks of 4 bytes, the response it reads, whose body comes in parts
  that do not end where the blocks end, and the blocks of the body.
\<close>

definition demo_signer :: SigningReader where
  "demo_signer = new_SigningReader ''inj'' 4"

definition demo_head :: string where
  "demo_head = ''HTTP/1.1 200 OK''"

definition demo_body :: "Part list" where
  "demo_body = [Body ''abc'', Body ''defghij'']"

definition demo_blocks :: "bytes list" where
  "demo_blocks = [''abcd'', ''efgh'', ''ij'']"

text \<open>The same with collaborators for which no head can be cached.\<close>

definition demo_crypto_no_cache :: Crypto where
  "demo_crypto_no_cache = demo_crypto\<lparr>http_injection_head := (\<lambda>h. None)\<rparr>"

text \<open>A verifying reader of a whole response that has verified the head.\<close>

definition demo_verifier :: VerifyingReader where
  "demo_verifier =
     \<lparr>vr_injection_id = ''inj'', bs_size = 4, range_begin = None, vr_block_offset = 0,
      vr_qbuf = \<lparr>qb_size = 4, qb_data = []\<rparr>, vr_block_hash = [], prev_block_sig = None,
      block_dig = None, prev_block_dig = None, vr_pending_parts = [], vr_body_length = 0,
      vr_body_hash = []\<rparr>"

text \<open>A signature that no string has.\<close>

definition bad_sig :: bytes where
  "bad_sig = replicate 64 CHR ''x''"

definition demo_verifier_abcd :: VerifyingReader where
  "demo_verifier_abcd =
     demo_verifier\<lparr>vr_qbuf := \<lparr>qb_size = 4, qb_data = ''abcd''\<rparr>, vr_body_length := 4,
                   vr_body_hash := ''abcd''\<rparr>"



section \<open>Properties of the inbound query handlers\<close>

lemma bencode_new_small: "length (bencode (BString ''new'')) < 1000"
  by code_simp

lemma bencode_996_bytes: "length (bencode (BString (replicate 996 CHR ''x''))) = 1000"
  by code_simp

lemma handle_put_store_monotone:
  assumes "handle_put env n sender transaction arguments = Ret (n', d)"
    and "get_mutable (data_store n) t = Some e"
  shows "\<exists>e'. get_mutable (data_store n') t = Some e'
              \<and> sequence_number e \<le> sequence_number e'"
  using assms
  by (auto simp: handle_put_def handle_put_mutable_def handle_put_immutable_def Let_def
        check_existing_item_def get_mutable_def put_mutable_def put_immutable_def
      split: option.splits if_splits)

lemma check_existing_item_stored:
  "check_existing_item env arguments v seq (Some existing) =
     (if seq < sequence_number existing
      then Some (302, ''Sequence number less than current'')
      else if seq = sequence_number existing
              \<and> bencoding_encode env v \<noteq> bencoding_encode env (item_value existing)
      then Some (302, ''Sequence number not updated'')
      else if as_int (at_key arguments ''cas'') \<noteq> None
              \<and> as_int (at_key arguments ''cas'') \<noteq> Some (sequence_number existing)
      then Some (301, ''Compare-and-swap mismatch'')
      else None)"
  by (auto simp: check_existing_item_def split: option.splits)

text \<open>
  Claim C3, as the code has it. A mutable \<^verbatim>\<open>put\<close> that has passed the checks made
  before the store is consulted (token present and valid, value below the size limit, key of
  32 bytes, signature of 64 bytes, sequence number present, salt of at most 64 bytes, this node
  with its routing table responsible, item validly signed), on a target that already stores an item, is answered by
  the first of these that applies: a lower sequence number gets error 302 and the node is
  unchanged; an equal sequence number with a different bencoded value gets error 302; a
  \<^verbatim>\<open>cas\<close> argument different from the stored sequence number gets error 301; otherwise
  the item replaces the stored one and the reply is sent. Reading the target back after the
  replacement gives the new item, and whatever the \<^verbatim>\<open>put\<close> and whatever the key, a
  stored sequence number never decreases.
\<close>

theorem validated_put_answered_by_first_failed_check:
  assumes tok: "as_string (at_key arguments ''token'') = Some token"
    and v: "at_key arguments ''v'' = Some v"
    and small: "length (bencoding_encode env v) < 1000"
    and k: "as_string (at_key arguments ''k'') = Some pk" "length pk = 32"
    and sg: "as_string (at_key arguments ''sig'') = Some sg" "length sg = 64"
    and seq: "as_int (at_key arguments ''seq'') = Some seq"
    and sl: "sl = (case as_string (at_key arguments ''salt'') of None \<Rightarrow> [] | Some x \<Rightarrow> x)"
    and sl_len: "length sl \<le> 64"
    and target: "target = mutable_get_id env pk sl"
    and token_ok: "store_verify_token env (ep_address sender) target token"
    and rt: "routing_table n = Some rt"
    and responsible: "contains_self env target (node_id n)
                        (find_closest_routing_nodes env rt target
                           (RESPONSIBLE_TRACKERS_PER_SWARM env * 4))"
    and item: "item = \<lparr>public_key = pk, salt = sl, item_value = v,
                        sequence_number = seq, signature = sg\<rparr>"
    and signed: "item_verify env item"
    and stored: "get_mutable (data_store n) target = Some existing"
  shows "handle_put env n sender transaction arguments =
      (if seq < sequence_number existing
       then Ret (n, Some (send_error sender transaction 302
                            ''Sequence number less than current''))
       else if seq = sequence_number existing
               \<and> bencoding_encode env v \<noteq> bencoding_encode env (item_value existing)
       then Ret (n, Some (send_error sender transaction 302 ''Sequence number not updated''))
       else if as_int (at_key arguments ''cas'') \<noteq> None
               \<and> as_int (at_key arguments ''cas'') \<noteq> Some (sequence_number existing)
       then Ret (n, Some (send_error sender transaction 301 ''Compare-and-swap mismatch''))
       else Ret (n\<lparr>data_store := put_mutable env item (data_store n)\<rparr>,
                 Some (send_reply (node_id n) sender transaction [])))
    \<and> get_mutable (put_mutable env item (data_store n)) target = Some item
    \<and> (\<forall>t e n' d. handle_put env n sender transaction arguments = Ret (n', d)
                   \<and> get_mutable (data_store n) t = Some e \<longrightarrow>
          (\<exists>e'. get_mutable (data_store n') t = Some e'
                \<and> sequence_number e \<le> sequence_number e'))"
proof -
  have salt_ok: "\<not> (case as_string (at_key arguments ''salt'') of None \<Rightarrow> False
                     | Some x \<Rightarrow> length x > 64)"
    using sl sl_len by (auto split: option.splits)
  have mut: "handle_put env n sender transaction arguments =
      (case check_existing_item env arguments v seq (Some existing) of
         Some err \<Rightarrow> Ret (n, Some (send_error sender transaction (fst err) (snd err)))
       | None \<Rightarrow> Ret (n\<lparr>data_store := put_mutable env item (data_store n)\<rparr>,
                       Some (send_reply (node_id n) sender transaction [])))"
    unfolding item target sl
    using tok v small k sg seq salt_ok token_ok[unfolded target sl] rt
      responsible[unfolded target sl] signed[unfolded item sl] stored[unfolded target sl]
    by (simp add: handle_put_def handle_put_mutable_def is_string_def Let_def)
  have first: "handle_put env n sender transaction arguments =
      (if seq < sequence_number existing
       then Ret (n, Some (send_error sender transaction 302
                            ''Sequence number less than current''))
       else if seq = sequence_number existing
               \<and> bencoding_encode env v \<noteq> bencoding_encode env (item_value existing)
       then Ret (n, Some (send_error sender transaction 302 ''Sequence number not updated''))
       else if as_int (at_key arguments ''cas'') \<noteq> None
               \<and> as_int (at_key arguments ''cas'') \<noteq> Some (sequence_number existing)
       then Ret (n, Some (send_error sender transaction 301 ''Compare-and-swap mismatch''))
       else Ret (n\<lparr>data_store := put_mutable env item (data_store n)\<rparr>,
                 Some (send_reply (node_id n) sender transaction [])))"
    unfolding mut check_existing_item_stored by simp
  have second: "get_mutable (put_mutable env item (data_store n)) target = Some item"
    using target item by (simp add: get_mutable_def put_mutable_def)
  have third: "\<forall>t e n' d. handle_put env n sender transaction arguments = Ret (n', d)
                   \<and> get_mutable (data_store n) t = Some e \<longrightarrow>
          (\<exists>e'. get_mutable (data_store n') t = Some e'
                \<and> sequence_number e \<le> sequence_number e')"
    using handle_put_store_monotone by blast
  from first second third show ?thesis by blast
qed

text \<open>
  The scenario of the spec on the concrete node: holding sequence number 5, a put of 6 with
  \<^verbatim>\<open>cas\<close> 4 is refused with 301, a put of 6 with \<^verbatim>\<open>cas\<close> 5 is stored, and a later
  put of 5 is refused with 302.
\<close>

theorem validated_put_answered_by_first_failed_check_witness:
  "handle_put demo_env (demo_node_with (demo_item 5)) demo_sender ''aa''
       (put_arguments 6 (Some 4))
     = Ret (demo_node_with (demo_item 5),
            Some (send_error demo_sender ''aa'' 301 ''Compare-and-swap mismatch''))
   \<and> handle_put demo_env (demo_node_with (demo_item 5)) demo_sender ''aa''
       (put_arguments 6 (Some 5))
     = Ret (demo_node_with (new_item 6),
            Some (send_reply (replicate 20 CHR ''n'') demo_sender ''aa'' []))
   \<and> handle_put demo_env (demo_node_with (new_item 6)) demo_sender ''aa''
       (put_arguments 5 None)
     = Ret (demo_node_with (new_item 6),
            Some (send_error demo_sender ''aa'' 302 ''Sequence number less than current''))"
proof -
  have run: "handle_put demo_env (demo_node_with old) demo_sender ''aa'' (put_arguments s cas) =
      (if s < sequence_number old
       then Ret (demo_node_with old,
                 Some (send_error demo_sender ''aa'' 302 ''Sequence number less than current''))
       else if s = sequence_number old
               \<and> bencode (BString ''new'') \<noteq> bencode (item_value old)
       then Ret (demo_node_with old,
                 Some (send_error demo_sender ''aa'' 302 ''Sequence number not updated''))
       else if cas \<noteq> None \<and> cas \<noteq> Some (sequence_number old)
       then Ret (demo_node_with old,
                 Some (send_error demo_sender ''aa'' 301 ''Compare-and-swap mismatch''))
       else Ret (demo_node_with (new_item s),
                 Some (send_reply (replicate 20 CHR ''n'') demo_sender ''aa'' [])))" for old s cas
    using bencode_new_small
      validated_put_answered_by_first_failed_check
        [where env = demo_env and n = "demo_node_with old" and sender = demo_sender
         and transaction = "''aa''" and arguments = "put_arguments s cas"
         and token = "''tok''" and v = "BString ''new''"
         and pk = "replicate 32 CHR ''k''" and sg = "replicate 64 CHR ''h''"
         and seq = s and sl = "[]" and target = demo_target and rt = "()"
         and item = "new_item s" and existing = old]
    by (cases cas)
       (simp_all add: put_arguments_def at_key_def demo_env_def demo_node_with_def demo_node_def
          demo_sender_def demo_target_def new_item_def contains_self_def demo_contact_def
          get_mutable_def put_mutable_def)
  show ?thesis
    using run [of "demo_item 5" 6 "Some 4"] run [of "demo_item 5" 6 "Some 5"]
      run [of "new_item 6" 5 None]
    by (simp add: demo_item_def new_item_def)
qed

text \<open>
  Claim C3 as stated has every \<^verbatim>\<open>put\<close> with a \<^verbatim>\<open>cas\<close> different from the stored
  sequence number answered with 301, and every \<^verbatim>\<open>put\<close> with a lower sequence number
  answered with 302. On the node that stores sequence number 5, the \<^verbatim>\<open>put\<close> of sequence
  number 4 with \<^verbatim>\<open>cas\<close> 7 is answered with 302, the sequence number being checked first,
  and the \<^verbatim>\<open>put\<close> of sequence number 4 under a signature that does not verify is
  answered with 206, the signature being checked before the stored item is looked at.
\<close>

theorem put_cas_mismatch_gets_302_and_forged_put_206:
  "handle_put demo_env (demo_node_with (demo_item 5)) demo_sender ''aa''
       (put_arguments 4 (Some 7))
     = Ret (demo_node_with (demo_item 5),
            Some (send_error demo_sender ''aa'' 302 ''Sequence number less than current''))
   \<and> handle_put demo_env_strict (demo_node_with (demo_item 5)) demo_sender ''aa''
       (forged_put_arguments 4)
     = Ret (demo_node_with (demo_item 5),
            Some (send_error demo_sender ''aa'' 206 ''Invalid signature''))"
  using bencode_new_small
  by (simp add: handle_put_def handle_put_mutable_def check_existing_item_def is_string_def
        put_arguments_def forged_put_arguments_def at_key_def demo_env_strict_def demo_env_def
        demo_node_with_def demo_node_def demo_sender_def demo_target_def demo_item_def
        contains_self_def demo_contact_def get_mutable_def Let_def)

text \<open>
  Claim C4. The stored item is to be returned exactly when the requested \<^verbatim>\<open>seq\<close> is less
  than the stored sequence number. The handler compares the other way round: on a node that
  stores sequence number 5, the answer to a \<^verbatim>\<open>get\<close> with \<^verbatim>\<open>seq\<close> 3 has the token but
  none of the keys \<^verbatim>\<open>k\<close>, \<^verbatim>\<open>seq\<close>, \<^verbatim>\<open>sig\<close>, \<^verbatim>\<open>v\<close>, and the answer to a
  \<^verbatim>\<open>get\<close> with \<^verbatim>\<open>seq\<close> 7 has the stored item under them.
\<close>

theorem get_with_seq_compares_backwards:
  "map (at_key (reply_dict (handle_query demo_env (demo_node_with (demo_item 5)) demo_sender
                          (get_query 3))))
     [''k'', ''seq'', ''sig'', ''v'', ''token'']
     = [None, None, None, None, Some (BString ''tok'')]
   \<and> map (at_key (reply_dict (handle_query demo_env (demo_node_with (demo_item 5)) demo_sender
                            (get_query 7))))
       [''k'', ''seq'', ''sig'', ''v'', ''token'']
     = [Some (BString (replicate 32 CHR ''k'')), Some (BInt 5),
        Some (BString (replicate 64 CHR ''g'')), Some (BString ''old''),
        Some (BString ''tok'')]"
  by (simp add: handle_query_def handle_get_def at_key_def demo_env_def get_query_def demo_node_def
        demo_node_with_def demo_target_def demo_item_def get_mutable_def get_immutable_def
        reply_dict_def send_reply_def bset_def nodes_key_def)

text \<open>
  Claim C5. A reply is to carry its result dictionary under key \<^verbatim>\<open>r\<close>. Every reply built
  by \<^verbatim>\<open>send_reply\<close> has \<^verbatim>\<open>y\<close> = \<^verbatim>\<open>r\<close> and the transaction id under \<^verbatim>\<open>t\<close>,
  but the result dictionary (with the node's id) is filed under key \<^verbatim>\<open>e\<close> and there is
  no key \<^verbatim>\<open>r\<close>; the answer to a ping shows it.
\<close>

theorem reply_dictionary_under_key_e:
  "at_key (snd (send_reply own_id sender transaction reply)) ''y'' = Some (BString ''r'')
   \<and> at_key (snd (send_reply own_id sender transaction reply)) ''t'' = Some (BString transaction)
   \<and> at_key (snd (send_reply own_id sender transaction reply)) ''r'' = None
   \<and> at_key (snd (send_reply own_id sender transaction reply)) ''e''
       = Some (BMap (bset reply ''id'' (BString own_id)))
   \<and> handle_query demo_env demo_node demo_sender ping_query
       = Ret (demo_node,
              Some (demo_sender,
                    [(''y'', BString ''r''), (''t'', BString ''aa''),
                     (''e'', BMap [(''id'', BString (replicate 20 CHR ''n''))])]))"
  by (simp add: handle_query_def at_key_def demo_env_def ping_query_def demo_node_def
        send_reply_def bset_def)

text \<open>
  Claim C8. A value whose bencoding is at most 1000 bytes long is to pass the size check. The
  check refuses a bencoding of exactly 1000 bytes: a byte string of 996 bytes encodes to
  1000 bytes (\<^verbatim>\<open>996:\<close> and the bytes) and the put is answered with error 205.
\<close>

theorem put_value_of_1000_bytes_refused:
  "length (bencode (BString (replicate 996 CHR ''x''))) = 1000
   \<and> handle_query demo_env demo_node demo_sender (put_query (BString (replicate 996 CHR ''x'')))
       = Ret (demo_node,
              Some (send_error demo_sender ''aa'' 205
                      (''Argument '' @ quoted ''v'' @ '' too big'')))"
  using bencode_996_bytes
  by (simp add: handle_query_def handle_put_def at_key_def demo_env_def put_query_def demo_node_def)

section \<open>Properties of \<^verbatim>\<open>HashList::load\<close>\<close>

lemma parse_loop_stuck_aux:
  assumes stuck: "parse_step p = Inr p"
    and ret: "parse_loop q = Some e"
  shows "q \<noteq> p"
proof (rule parse_loop.raw_induct [where P = "\<lambda>x y. x \<noteq> p", OF _ ret])
  fix f x y
  assume IH: "\<And>x y. f x = Some y \<Longrightarrow> x \<noteq> p"
    and step: "(case parse_step x of Inl e \<Rightarrow> Some e | Inr p' \<Rightarrow> f p') = Some y"
  show "x \<noteq> p"
  proof
    assume "x = p"
    with step stuck have "f p = Some y" by simp
    with IH show False by blast
  qed
qed

text \<open>A pass that leaves the parser as it found it is repeated for ever.\<close>

lemma parse_loop_stuck:
  assumes "parse_step p = Inr p"
  shows "parse_loop p = None"
  using parse_loop_stuck_aux [OF assms, of p] by (cases "parse_loop p") auto

lemma parse_loop_continue:
  "parse_step p = Inr p' \<Longrightarrow> parse_loop p = parse_loop p'"
  by (subst parse_loop.simps) simp

text \<open>Whatever the parts, \<^verbatim>\<open>load\<close> never returns a hash list.\<close>

lemma read_parts_never_succeeds:
  "read_parts deps head new_parser parts \<noteq> Some (Inr hs)"
  by (induction parts)
     (auto simp: finish_load_def new_parser_def split: option.splits)

lemma HashList_load_never_succeeds:
  "HashList_load deps parts \<noteq> Some (Inr hs)"
  by (auto simp: HashList_load_def read_parts_never_succeeds
      split: list.splits Part.splits option.splits)

text \<open>
  Claim C10. The inner parsing loop is to exit once no further item can be extracted from the
  buffered bytes. It has no exit but the error returns: after a valid head, on a body part
  holding a well-formed hash list (the magic line, a 64-byte signature and one 64-byte hash)
  the loop reads the magic line and then repeats the same pass for ever, and on an empty body
  part it repeats its first pass for ever; \<^verbatim>\<open>load\<close> does not return.
\<close>

theorem load_never_returns_on_hash_list:
  "HashList_load demo_hash_list_deps [Head ''h'', Body demo_hash_list_body] = None
   \<and> HashList_load demo_hash_list_deps [Head ''h'', Body []] = None"
proof
  let ?p0 = "(append_data demo_hash_list_body new_parser)\<lparr>progress := False\<rparr>"
  let ?p1 = "\<lparr>buffer = replicate 64 CHR ''s'' @ replicate 64 CHR ''d'', magic_checked = False,
              hl_signature = None, hashes = [], progress = True\<rparr>"
  have s0: "parse_step ?p0 = Inr ?p1"
    by (simp add: parse_step_def read_line_def append_data_def new_parser_def
          demo_hash_list_body_def MAGIC_def newline_def MAX_LINE_SIZE_BYTES_def)
  have s1: "parse_step ?p1 = Inr ?p1"
    by (simp add: parse_step_def read_line_def newline_def)
  have "parse_loop ?p0 = None"
    using parse_loop_continue [OF s0] parse_loop_stuck [OF s1] by simp
  then show "HashList_load demo_hash_list_deps [Head ''h'', Body demo_hash_list_body] = None"
    by (simp add: HashList_load_def demo_hash_list_deps_def body_data_def)
next
  let ?p0 = "(append_data [] new_parser)\<lparr>progress := False\<rparr>"
  have s0: "parse_step ?p0 = Inr ?p0"
    by (simp add: parse_step_def read_line_def append_data_def new_parser_def
          MAX_LINE_SIZE_BYTES_def)
  show "HashList_load demo_hash_list_deps [Head ''h'', Body []] = None"
    using parse_loop_stuck [OF s0]
    by (simp add: HashList_load_def demo_hash_list_deps_def body_data_def)
qed

section \<open>Properties of atomic files\<close>

lemma run_op_inv:
  "af_inv tmp p af \<Longrightarrow> run_op op (af, fs) = (af', fs') \<Longrightarrow> af_inv tmp p af'"
  by (cases op)
     (auto simp: af_inv_def commit_def temp_file_close_def rename_file_def Let_def
        split: prod.splits option.splits if_splits)

lemma run_op_final_untouched:
  "af_inv tmp p af \<Longrightarrow> tmp \<noteq> p \<Longrightarrow> op \<noteq> OpCommit True \<Longrightarrow>
   run_op op (af, fs) = (af', fs') \<Longrightarrow> files fs' p = files fs p"
  by (cases op)
     (auto simp: af_inv_def commit_def temp_file_close_def rename_file_def af_write_def
        remove_file_def Let_def
        split: prod.splits option.splits if_splits)

lemma run_ops_final_untouched:
  "af_inv tmp p af \<Longrightarrow> tmp \<noteq> p \<Longrightarrow> OpCommit True \<notin> set ops \<Longrightarrow>
   run_ops ops (af, fs) = (af', fs') \<Longrightarrow> af_inv tmp p af' \<and> files fs' p = files fs p"
proof (induction ops arbitrary: af fs)
  case Nil
  then show ?case by simp
next
  case (Cons op ops)
  obtain af1 fs1 where s: "run_op op (af, fs) = (af1, fs1)"
    by (cases "run_op op (af, fs)")
  from Cons.prems have op: "op \<noteq> OpCommit True" and ops: "OpCommit True \<notin> set ops"
    by auto
  have inv1: "af_inv tmp p af1"
    using run_op_inv [OF Cons.prems(1) s] .
  have f1: "files fs1 p = files fs p"
    using run_op_final_untouched [OF Cons.prems(1,2) op s] .
  from Cons.prems(4) s have "run_ops ops (af1, fs1) = (af', fs')"
    by simp
  from Cons.IH [OF inv1 Cons.prems(2) ops this] f1 show ?case
    by simp
qed

lemma destroy_removes_temp:
  "af_inv tmp p af \<Longrightarrow> tmp \<noteq> p \<Longrightarrow>
   files (af_destroy af fs) tmp = None \<and> files (af_destroy af fs) p = files fs p"
  by (auto simp: af_inv_def af_destroy_def temp_file_close_def remove_file_def Let_def)

lemma mkatomic_result:
  "mkatomic (Some name) ok p fs = Some (af, fs0) \<Longrightarrow>
   af_inv (parent_path p @ [name]) p af \<and> tf_open (af_temp_file af)
   \<and> files fs0 (parent_path p @ [name]) \<noteq> None
   \<and> (parent_path p @ [name] \<noteq> p \<longrightarrow> files fs0 p = files fs p)"
  by (auto simp: mkatomic_def mktemp_def open_or_create_def af_inv_def
      split: option.splits if_splits)

lemma commit_after_write:
  assumes "af_inv tmp p af" and "tf_open (af_temp_file af)" and "files fs0 tmp \<noteq> None"
    and "fs1 = af_write d af fs0"
  shows "commit True af fs1 =
           (af\<lparr>af_temp_file := (af_temp_file af)\<lparr>tf_open := False\<rparr>\<rparr>,
            fs1\<lparr>files := ((files fs1)(tmp := None))(p := files fs1 tmp),
                calls := calls fs1 @ [Close tmp, Rename tmp p]\<rparr>,
            None)"
  using assms
  by (auto simp: af_inv_def commit_def temp_file_close_def rename_file_def af_write_def Let_def
      split: option.splits)

text \<open>
  Claim C9, as the code has it. The temporary file of an atomic file lies in the directory of
  the final path. As long as no commit has succeeded, whatever is written and whichever
  commits have failed, the final path holds what it held before the atomic file was made,
  and destroying the atomic file then removes the temporary file and leaves the final path as
  it was. A commit after a write closes the temporary file and renames it onto the final path,
  which then holds what the temporary file held; these two are the only system calls that the
  commit issues.
\<close>

theorem atomic_file_commit_by_rename:
  assumes mk: "mkatomic (Some name) ok p fs = Some (af, fs0)"
    and distinct: "parent_path p @ [name] \<noteq> p"
  shows "tf_path (af_temp_file af) = parent_path p @ [name]
    \<and> (\<forall>ops af' fs'. OpCommit True \<notin> set ops \<and> run_ops ops (af, fs0) = (af', fs') \<longrightarrow>
          files fs' p = files fs p
          \<and> files (af_destroy af' fs') p = files fs p
          \<and> files (af_destroy af' fs') (parent_path p @ [name]) = None)
    \<and> (\<forall>d. case commit True af (af_write d af fs0) of
             (af', fs', ec) \<Rightarrow>
               ec = None
               \<and> files fs' p = files (af_write d af fs0) (parent_path p @ [name])
               \<and> files fs' (parent_path p @ [name]) = None
               \<and> calls fs' = calls (af_write d af fs0)
                              @ [Close (parent_path p @ [name]), Rename (parent_path p @ [name]) p])"
proof -
  let ?tmp = "parent_path p @ [name]"
  from mkatomic_result [OF mk]
  have inv: "af_inv ?tmp p af" and is_open: "tf_open (af_temp_file af)"
    and exists: "files fs0 ?tmp \<noteq> None" and same: "files fs0 p = files fs p"
    using distinct by auto
  have one: "tf_path (af_temp_file af) = ?tmp"
    using inv by (simp add: af_inv_def)
  have two: "\<forall>ops af' fs'. OpCommit True \<notin> set ops \<and> run_ops ops (af, fs0) = (af', fs') \<longrightarrow>
          files fs' p = files fs p
          \<and> files (af_destroy af' fs') p = files fs p
          \<and> files (af_destroy af' fs') ?tmp = None"
  proof (intro allI impI)
    fix ops af' fs'
    assume h: "OpCommit True \<notin> set ops \<and> run_ops ops (af, fs0) = (af', fs')"
    from run_ops_final_untouched [OF inv distinct] h
    have inv': "af_inv ?tmp p af'" and f: "files fs' p = files fs0 p"
      by auto
    from destroy_removes_temp [OF inv' distinct, of fs'] f same
    show "files fs' p = files fs p
          \<and> files (af_destroy af' fs') p = files fs p
          \<and> files (af_destroy af' fs') ?tmp = None"
      by simp
  qed
  have three: "\<forall>d. case commit True af (af_write d af fs0) of
             (af', fs', ec) \<Rightarrow>
               ec = None
               \<and> files fs' p = files (af_write d af fs0) ?tmp
               \<and> files fs' ?tmp = None
               \<and> calls fs' = calls (af_write d af fs0) @ [Close ?tmp, Rename ?tmp p]"
  proof
    fix d
    show "case commit True af (af_write d af fs0) of
             (af', fs', ec) \<Rightarrow>
               ec = None
               \<and> files fs' p = files (af_write d af fs0) ?tmp
               \<and> files fs' ?tmp = None
               \<and> calls fs' = calls (af_write d af fs0) @ [Close ?tmp, Rename ?tmp p]"
      using commit_after_write [OF inv is_open exists refl, of d] distinct
      by simp
  qed
  from one two three show ?thesis by blast
qed

theorem atomic_file_commit_by_rename_witness:
  "files (fst (the (store_entry (Some ''tmp.1234'') True True demo_path ''data'' empty_fs)))
     demo_path = Some ''data''
   \<and> (case the (mkatomic (Some ''tmp.1234'') True demo_path empty_fs) of
        (af, fs0) \<Rightarrow>
          tf_path (af_temp_file af) = demo_tmp
          \<and> files (af_destroy af (af_write ''data'' af fs0)) demo_path = None
          \<and> files (af_destroy af (af_write ''data'' af fs0)) demo_tmp = None)"
proof -
  define af where "af = \<lparr>af_temp_file = \<lparr>tf_path = demo_tmp, tf_open = True,
                                          keep_on_close = False\<rparr>, af_path = demo_path\<rparr>"
  define fs0 where "fs0 = \<lparr>files = [demo_tmp \<mapsto> []], calls = [Open demo_tmp]\<rparr>"
  have mk: "mkatomic (Some ''tmp.1234'') True demo_path empty_fs = Some (af, fs0)"
    by (simp add: mkatomic_def mktemp_def open_or_create_def empty_fs_def demo_path_def
          demo_tmp_def parent_path_def af_def fs0_def)
  have distinct: "parent_path demo_path @ [''tmp.1234''] \<noteq> demo_path"
    by (simp add: demo_path_def parent_path_def)
  have tmp: "parent_path demo_path @ [''tmp.1234''] = demo_tmp"
    by (simp add: demo_path_def demo_tmp_def parent_path_def)
  note inst = atomic_file_commit_by_rename [OF mk distinct, unfolded tmp]
  from inst have a: "tf_path (af_temp_file af) = demo_tmp"
    by blast
  from inst have "OpCommit True \<notin> set [OpWrite ''data'']
      \<and> run_ops [OpWrite ''data''] (af, fs0) = (af, af_write ''data'' af fs0) \<longrightarrow>
        files (af_destroy af (af_write ''data'' af fs0)) demo_path = files empty_fs demo_path
        \<and> files (af_destroy af (af_write ''data'' af fs0)) demo_tmp = None"
    by blast
  then have b: "files (af_destroy af (af_write ''data'' af fs0)) demo_path = None
      \<and> files (af_destroy af (af_write ''data'' af fs0)) demo_tmp = None"
    by (simp add: empty_fs_def)
  from inst have "case commit True af (af_write ''data'' af fs0) of
             (af', fs', ec) \<Rightarrow>
               files fs' demo_path = files (af_write ''data'' af fs0) demo_tmp
               \<and> files fs' demo_tmp = None"
    by (auto split: prod.splits)
  then have c: "files (fst (the (store_entry (Some ''tmp.1234'') True True demo_path ''data''
                                   empty_fs))) demo_path = Some ''data''"
    using distinct [unfolded tmp]
    by (auto simp: store_entry_def mk af_destroy_def temp_file_close_def remove_file_def Let_def
          commit_def rename_file_def af_write_def af_def fs0_def
        split: prod.splits option.splits if_splits)
  from a b c show ?thesis
    by (simp add: mk)
qed

text \<open>
  Claim C9 as stated has the temporary file fsynced before the rename. Storing an entry issues
  four system calls, open, write, close and rename, and no fsync.
\<close>

theorem store_entry_issues_no_fsync:
  "map_option (\<lambda>r. calls (fst r))
     (store_entry (Some ''tmp.1234'') True True demo_path ''data'' empty_fs)
     = Some [Open demo_tmp, Write demo_tmp ''data'', Close demo_tmp, Rename demo_tmp demo_path]
   \<and> Fsync demo_tmp \<notin> set (calls (fst (the
        (store_entry (Some ''tmp.1234'') True True demo_path ''data'' empty_fs))))"
  by (simp add: store_entry_def mkatomic_def mktemp_def open_or_create_def empty_fs_def
        demo_path_def demo_tmp_def parent_path_def commit_def temp_file_close_def
        rename_file_def af_write_def af_destroy_def remove_file_def Let_def)

section \<open>Properties of the reply timeouts\<close>











section \<open>Properties of the signing and the verifying reader\<close>

lemma chain_snoc: "chain c (blocks @ [b]) = sha512 c (chain c blocks @ b)"
  by (simp add: chain_def)

lemma chain_Nil: "chain c [] = []"
  by (simp add: chain_def)

lemma chain_butlast_last:
  "prev \<noteq> [] \<Longrightarrow> sha512 c (chain c (butlast prev) @ last prev) = chain c prev"
  using chain_snoc [of c "butlast prev" "last prev"] by simp

lemma sum_nonempty_pos:
  "[] \<notin> set prev \<Longrightarrow> (0 < sum_list (map length prev)) = (prev \<noteq> [])"
  by (induction prev) auto

lemma offset_minus_last:
  "prev \<noteq> [] \<Longrightarrow> sum_list (map length prev) - length (last prev) = last_offset prev"
  by (induction prev rule: rev_induct) (auto simp: last_offset_def)

lemma signed_chunks_append:
  "signed_chunks c i prev (xs @ ys) = signed_chunks c i prev xs @ signed_chunks c i (prev @ xs) ys"
  by (induction xs arbitrary: prev) auto

lemma plain_chunks_append: "plain_chunks (xs @ ys) = plain_chunks xs @ plain_chunks ys"
  by (induction xs) auto

lemma sr_process_data_error:
  "sr_process_data c inbuf r = Inl e \<Longrightarrow> e = length_error"
  by (auto simp: sr_process_data_def Let_def split: option.splits prod.splits if_splits)

lemma sr_process_part_error:
  "sr_process_part c p r = Inl e \<Longrightarrow> e = length_error"
  by (cases p) (auto simp: sr_process_head_def sr_process_data_error split: option.splits)

lemma sr_process_end_error:
  "sr_process_end c r = Inl e \<Longrightarrow> e = length_error"
  by (auto simp: sr_process_end_def Let_def sr_process_data_error
      split: if_splits sum.splits prod.splits option.splits)

lemma sr_process_data_step:
  assumes inv: "sr_inv c prev r"
    and step: "sr_process_data c inbuf r = Inr pr"
  shows "\<exists>new. length new \<le> 1
           \<and> sr_inv c (prev @ new) (snd (sr_emitted pr))
           \<and> fst (sr_emitted pr) = signed_chunks c (sr_injection_id r) prev new
           \<and> sr_injection_id (snd (sr_emitted pr)) = sr_injection_id r"
proof -
  from step obtain q1 where put: "qb_put c inbuf (sr_qbuf r) = Some q1"
    by (auto simp: sr_process_data_def Let_def split: option.splits)
  obtain block_buf q2 where get:
    "(if length inbuf > 0 then qb_get q1 else qb_get_rest q1) = (block_buf, q2)"
    by (cases "if length inbuf > 0 then qb_get q1 else qb_get_rest q1")
  show ?thesis
  proof (cases "block_buf = []")
    case True
    with inv step put get have "sr_inv c (prev @ []) (snd (sr_emitted pr))
           \<and> fst (sr_emitted pr) = signed_chunks c (sr_injection_id r) prev []
           \<and> sr_injection_id (snd (sr_emitted pr)) = sr_injection_id r"
      by (auto simp: sr_process_data_def Let_def sr_emitted_def sr_inv_def)
    then show ?thesis by (intro exI [of _ "[]"]) simp
  next
    case False
    show ?thesis
    proof (cases "prev = []")
      case True
      with False inv step put get have "sr_inv c (prev @ [block_buf]) (snd (sr_emitted pr))
           \<and> fst (sr_emitted pr) = signed_chunks c (sr_injection_id r) prev [block_buf]
           \<and> sr_injection_id (snd (sr_emitted pr)) = sr_injection_id r"
        by (auto simp: sr_process_data_def Let_def sr_emitted_def sr_inv_def hash_update_def
              chain_Nil)
      then show ?thesis by (intro exI [of _ "[block_buf]"]) simp
    next
      case nonempty: False
      from inv have pos: "0 < sr_block_offset r"
        using nonempty sum_nonempty_pos [of prev] by (simp add: sr_inv_def)
      from inv nonempty have off: "sr_block_offset r - block_size_last r = last_offset prev"
        using offset_minus_last [of prev] by (simp add: sr_inv_def)
      from inv nonempty have dig: "sha512 c (sr_block_hash r) = chain c prev"
        using chain_butlast_last [of prev c] by (simp add: sr_inv_def)
      from False inv step put get pos off dig nonempty
      have "sr_inv c (prev @ [block_buf]) (snd (sr_emitted pr))
           \<and> fst (sr_emitted pr) = signed_chunks c (sr_injection_id r) prev [block_buf]
           \<and> sr_injection_id (snd (sr_emitted pr)) = sr_injection_id r"
        by (auto simp: sr_process_data_def Let_def sr_emitted_def sr_inv_def hash_update_def
              block_chunk_ext_signed_def)
      then show ?thesis by (intro exI [of _ "[block_buf]"]) simp
    qed
  qed
qed

lemma sr_process_data_proxy_step:
  assumes inv: "sr_proxy_inv r"
    and step: "sr_process_data c inbuf r = Inr pr"
  shows "\<exists>new. length new \<le> 1
           \<and> sr_proxy_inv (snd (sr_emitted pr))
           \<and> fst (sr_emitted pr) = plain_chunks new"
proof -
  from step obtain q1 where put: "qb_put c inbuf (sr_qbuf r) = Some q1"
    by (auto simp: sr_process_data_def Let_def split: option.splits)
  obtain block_buf q2 where get:
    "(if length inbuf > 0 then qb_get q1 else qb_get_rest q1) = (block_buf, q2)"
    by (cases "if length inbuf > 0 then qb_get q1 else qb_get_rest q1")
  show ?thesis
  proof (cases "block_buf = []")
    case True
    with inv step put get have "sr_proxy_inv (snd (sr_emitted pr))
           \<and> fst (sr_emitted pr) = plain_chunks []"
      by (auto simp: sr_process_data_def Let_def sr_emitted_def sr_proxy_inv_def)
    then show ?thesis by (intro exI [of _ "[]"]) simp
  next
    case False
    with inv step put get have "sr_proxy_inv (snd (sr_emitted pr))
           \<and> fst (sr_emitted pr) = plain_chunks [block_buf]"
      by (auto simp: sr_process_data_def Let_def sr_emitted_def sr_proxy_inv_def)
    then show ?thesis by (intro exI [of _ "[block_buf]"]) simp
  qed
qed

lemma sr_process_part_step:
  assumes inv: "sr_inv c prev r"
    and nohead: "\<not> is_head p"
    and step: "sr_process_part c p r = Inr pr"
  shows "\<exists>new. length new \<le> 1
           \<and> sr_inv c (prev @ new) (snd (sr_emitted pr))
           \<and> fst (sr_emitted pr) = signed_chunks c (sr_injection_id r) prev new
           \<and> sr_injection_id (snd (sr_emitted pr)) = sr_injection_id r"
proof (cases p)
  case (Head h)
  with nohead show ?thesis by (simp add: is_head_def)
next
  case (Body d)
  with step sr_process_data_step [OF inv] show ?thesis by simp
next
  case (ChunkBody d)
  with step sr_process_data_step [OF inv] show ?thesis by simp
next
  case (ChunkHdr n x)
  with step inv have "sr_inv c (prev @ []) (snd (sr_emitted pr))
           \<and> fst (sr_emitted pr) = signed_chunks c (sr_injection_id r) prev []
           \<and> sr_injection_id (snd (sr_emitted pr)) = sr_injection_id r"
    by (auto simp: sr_emitted_def sr_inv_def)
  then show ?thesis by (intro exI [of _ "[]"]) simp
next
  case (Trailer t)
  with step inv have "sr_inv c (prev @ []) (snd (sr_emitted pr))
           \<and> fst (sr_emitted pr) = signed_chunks c (sr_injection_id r) prev []
           \<and> sr_injection_id (snd (sr_emitted pr)) = sr_injection_id r"
    by (auto simp: sr_emitted_def sr_inv_def)
  then show ?thesis by (intro exI [of _ "[]"]) simp
qed

lemma sr_process_part_proxy_step:
  assumes inv: "sr_proxy_inv r"
    and nohead: "\<not> is_head p"
    and step: "sr_process_part c p r = Inr pr"
  shows "\<exists>new. length new \<le> 1
           \<and> sr_proxy_inv (snd (sr_emitted pr))
           \<and> fst (sr_emitted pr) = plain_chunks new"
proof (cases p)
  case (Head h)
  with nohead show ?thesis by (simp add: is_head_def)
next
  case (Body d)
  with step sr_process_data_proxy_step [OF inv] show ?thesis by simp
next
  case (ChunkBody d)
  with step sr_process_data_proxy_step [OF inv] show ?thesis by simp
next
  case (ChunkHdr n x)
  with step inv have "sr_proxy_inv (snd (sr_emitted pr))
           \<and> fst (sr_emitted pr) = plain_chunks []"
    by (auto simp: sr_emitted_def sr_proxy_inv_def)
  then show ?thesis by (intro exI [of _ "[]"]) simp
next
  case (Trailer t)
  with step inv have "sr_proxy_inv (snd (sr_emitted pr))
           \<and> fst (sr_emitted pr) = plain_chunks []"
    by (auto simp: sr_emitted_def sr_proxy_inv_def)
  then show ?thesis by (intro exI [of _ "[]"]) simp
qed

text \<open>
  The end of the input. While the buffer hands out a block, \<^verbatim>\<open>process_end\<close> returns its
  chunk; then it returns the last, empty chunk and leaves the trailer pending.
\<close>

lemma sr_process_end_last:
  assumes inv: "sr_inv c prev r"
    and data: "sr_process_data c [] r = Inr (None, r1)"
  shows "\<exists>t r2. sr_process_end c r = Inr (Some (last_chunk c (sr_injection_id r) prev), r2)
           \<and> sr_pending_parts r2 = [Trailer t] \<and> sr_is_done r2"
proof -
  have dig: "sha512 c (sr_block_hash r) = (if prev = [] then sha512 c [] else chain c prev)"
    using inv chain_butlast_last [of prev c] by (simp add: sr_inv_def)
  have off: "sr_block_offset r - block_size_last r = last_offset prev"
    using inv offset_minus_last [of prev]
    by (cases "prev = []") (simp_all add: sr_inv_def last_offset_def)
  from data have same: "sr_block_hash r1 = sr_block_hash r" "sr_block_offset r1 = sr_block_offset r"
    "block_size_last r1 = block_size_last r" "sr_injection_id r1 = sr_injection_id r"
    "do_inject r1 = do_inject r" "sr_pending_parts r1 = sr_pending_parts r"
    by (auto simp: sr_process_data_def Let_def split: option.splits prod.splits if_splits)
  from inv data same dig off show ?thesis
    by (simp add: sr_process_end_def Let_def sr_inv_def last_chunk_def
          block_chunk_ext_signed_def)
qed

lemma sr_process_end_proxy_last:
  assumes inv: "sr_proxy_inv r"
    and data: "sr_process_data c [] r = Inr (None, r1)"
  shows "\<exists>t r2. sr_process_end c r = Inr (Some (ChunkHdr 0 []), r2)
           \<and> sr_pending_parts r2 = [Trailer t] \<and> sr_is_done r2"
proof -
  from data have same: "do_inject r1 = do_inject r" "sr_pending_parts r1 = sr_pending_parts r"
    by (auto simp: sr_process_data_def Let_def split: option.splits prod.splits if_splits)
  from inv data same show ?thesis
    by (simp add: sr_process_end_def Let_def sr_proxy_inv_def)
qed

lemma sr_read_end_when_done:
  "sr_is_done r \<Longrightarrow> sr_read_end c r = (None, [])"
  by (subst sr_read_end.simps) (simp add: sr_process_end_def)

lemma sr_read_end_out:
  assumes "sr_inv c prev r"
    and "sr_read_end c r = (e, out)"
  shows "\<exists>new. (e = None
                 \<and> (\<exists>t. out = signed_chunks c (sr_injection_id r) prev new
                             @ [last_chunk c (sr_injection_id r) (prev @ new), Trailer t]))
               \<or> (e = Some length_error
                  \<and> out = signed_chunks c (sr_injection_id r) prev new)"
  using assms
proof (induction c r arbitrary: prev e out rule: sr_read_end.induct)
  case (1 c r)
  from "1.prems"(1) have notdone: "\<not> sr_is_done r" by (simp add: sr_inv_def)
  show ?case
  proof (cases "sr_process_data c [] r")
    case (Inl err)
    then have "sr_process_end c r = Inl length_error"
      using notdone sr_process_data_error [OF Inl] by (simp add: sr_process_end_def)
    with "1.prems"(2) have "e = Some length_error \<and> out = signed_chunks c (sr_injection_id r) prev []"
      by (subst (asm) sr_read_end.simps) simp
    then show ?thesis by blast
  next
    case (Inr pr)
    obtain po r1 where pr: "pr = (po, r1)" by (cases pr)
    show ?thesis
    proof (cases po)
      case None
      from sr_process_end_last [OF "1.prems"(1) Inr [unfolded pr None]] obtain t r2 where
        pe: "sr_process_end c r = Inr (Some (last_chunk c (sr_injection_id r) prev), r2)"
        and pend: "sr_pending_parts r2 = [Trailer t]" and fin: "sr_is_done r2"
        by blast
      have "sr_read_end c (snd (sr_emitted (Some (last_chunk c (sr_injection_id r) prev), r2)))
              = (None, [])"
        using fin by (intro sr_read_end_when_done) (simp add: sr_emitted_def)
      with "1.prems"(2) pe pend
      have "e = None \<and> out = signed_chunks c (sr_injection_id r) prev []
                              @ [last_chunk c (sr_injection_id r) (prev @ []), Trailer t]"
        by (subst (asm) sr_read_end.simps) (simp add: sr_emitted_def)
      then show ?thesis by blast
    next
      case (Some p)
      have pe: "sr_process_end c r = Inr (Some p, r1)"
        using notdone Inr pr Some by (simp add: sr_process_end_def)
      from sr_process_data_step [OF "1.prems"(1) Inr] pr Some obtain new where
        inv': "sr_inv c (prev @ new) (snd (sr_emitted (Some p, r1)))"
        and out1: "fst (sr_emitted (Some p, r1)) = signed_chunks c (sr_injection_id r) prev new"
        and inj: "sr_injection_id (snd (sr_emitted (Some p, r1))) = sr_injection_id r"
        by blast
      obtain e1 rest where rest:
        "sr_read_end c (snd (sr_emitted (Some p, r1))) = (e1, rest)"
        by (cases "sr_read_end c (snd (sr_emitted (Some p, r1)))")
      with "1.prems"(2) pe have out: "e = e1" "out = fst (sr_emitted (Some p, r1)) @ rest"
        by (subst (asm) sr_read_end.simps, simp)+
      from "1.IH" [OF pe refl refl inv' rest] inj obtain new' where
        "(e1 = None
           \<and> (\<exists>t. rest = signed_chunks c (sr_injection_id r) (prev @ new) new'
                     @ [last_chunk c (sr_injection_id r) ((prev @ new) @ new'), Trailer t]))
         \<or> (e1 = Some length_error
            \<and> rest = signed_chunks c (sr_injection_id r) (prev @ new) new')"
        by auto
      with out out1
      have "(e = None
              \<and> (\<exists>t. out = signed_chunks c (sr_injection_id r) prev (new @ new')
                        @ [last_chunk c (sr_injection_id r) (prev @ (new @ new')), Trailer t]))
            \<or> (e = Some length_error
               \<and> out = signed_chunks c (sr_injection_id r) prev (new @ new'))"
        by (auto simp: signed_chunks_append)
      then show ?thesis by blast
    qed
  qed
qed

lemma sr_read_end_proxy_out:
  assumes "sr_proxy_inv r"
    and "sr_read_end c r = (e, out)"
  shows "\<exists>new. (e = None \<and> (\<exists>t. out = plain_chunks new @ [ChunkHdr 0 [], Trailer t]))
               \<or> (e = Some length_error \<and> out = plain_chunks new)"
  using assms
proof (induction c r arbitrary: e out rule: sr_read_end.induct)
  case (1 c r)
  from "1.prems"(1) have notdone: "\<not> sr_is_done r" by (simp add: sr_proxy_inv_def)
  show ?case
  proof (cases "sr_process_data c [] r")
    case (Inl err)
    then have "sr_process_end c r = Inl length_error"
      using notdone sr_process_data_error [OF Inl] by (simp add: sr_process_end_def)
    with "1.prems"(2) have "e = Some length_error \<and> out = plain_chunks []"
      by (subst (asm) sr_read_end.simps) simp
    then show ?thesis by blast
  next
    case (Inr pr)
    obtain po r1 where pr: "pr = (po, r1)" by (cases pr)
    show ?thesis
    proof (cases po)
      case None
      from sr_process_end_proxy_last [OF "1.prems"(1) Inr [unfolded pr None]] obtain t r2 where
        pe: "sr_process_end c r = Inr (Some (ChunkHdr 0 []), r2)"
        and pend: "sr_pending_parts r2 = [Trailer t]" and fin: "sr_is_done r2"
        by blast
      have "sr_read_end c (snd (sr_emitted (Some (ChunkHdr 0 []), r2))) = (None, [])"
        using fin by (intro sr_read_end_when_done) (simp add: sr_emitted_def)
      with "1.prems"(2) pe pend
      have "e = None \<and> out = plain_chunks [] @ [ChunkHdr 0 [], Trailer t]"
        by (subst (asm) sr_read_end.simps) (simp add: sr_emitted_def)
      then show ?thesis by blast
    next
      case (Some p)
      have pe: "sr_process_end c r = Inr (Some p, r1)"
        using notdone Inr pr Some by (simp add: sr_process_end_def)
      from sr_process_data_proxy_step [OF "1.prems"(1) Inr] pr Some obtain new where
        inv': "sr_proxy_inv (snd (sr_emitted (Some p, r1)))"
        and out1: "fst (sr_emitted (Some p, r1)) = plain_chunks new"
        by blast
      obtain e1 rest where rest:
        "sr_read_end c (snd (sr_emitted (Some p, r1))) = (e1, rest)"
        by (cases "sr_read_end c (snd (sr_emitted (Some p, r1)))")
      with "1.prems"(2) pe have out: "e = e1" "out = fst (sr_emitted (Some p, r1)) @ rest"
        by (subst (asm) sr_read_end.simps, simp)+
      from "1.IH" [OF pe refl refl inv' rest] obtain new' where
        "(e1 = None \<and> (\<exists>t. rest = plain_chunks new' @ [ChunkHdr 0 [], Trailer t]))
         \<or> (e1 = Some length_error \<and> rest = plain_chunks new')"
        by auto
      with out out1
      have "(e = None \<and> (\<exists>t. out = plain_chunks (new @ new') @ [ChunkHdr 0 [], Trailer t]))
            \<or> (e = Some length_error \<and> out = plain_chunks (new @ new'))"
        by (auto simp: plain_chunks_append)
      then show ?thesis by blast
    qed
  qed
qed

lemma sr_read_all_out:
  assumes "sr_inv c prev r"
    and "\<forall>p \<in> set ups. \<not> is_head p"
    and "sr_read_all c r ups = (e, out)"
  shows "\<exists>blocks. (e = None
                    \<and> (\<exists>t. out = signed_chunks c (sr_injection_id r) prev blocks
                              @ [last_chunk c (sr_injection_id r) (prev @ blocks), Trailer t]))
                  \<or> (e = Some length_error
                     \<and> out = signed_chunks c (sr_injection_id r) prev blocks)"
  using assms
proof (induction ups arbitrary: prev r e out)
  case Nil
  then show ?case using sr_read_end_out by simp
next
  case (Cons p ups)
  show ?case
  proof (cases "sr_process_part c p r")
    case (Inl err)
    with Cons.prems(3) sr_process_part_error [OF Inl]
    have "e = Some length_error \<and> out = signed_chunks c (sr_injection_id r) prev []"
      by simp
    then show ?thesis by blast
  next
    case (Inr pr)
    obtain e1 rest where rest: "sr_read_all c (snd (sr_emitted pr)) ups = (e1, rest)"
      by (cases "sr_read_all c (snd (sr_emitted pr)) ups")
    with Cons.prems(3) Inr have out: "e = e1" "out = fst (sr_emitted pr) @ rest"
      by simp_all
    from Cons.prems(2) have nohead: "\<not> is_head p" and noheads: "\<forall>p \<in> set ups. \<not> is_head p"
      by auto
    from sr_process_part_step [OF Cons.prems(1) nohead Inr] obtain new where
      inv': "sr_inv c (prev @ new) (snd (sr_emitted pr))"
      and out1: "fst (sr_emitted pr) = signed_chunks c (sr_injection_id r) prev new"
      and inj: "sr_injection_id (snd (sr_emitted pr)) = sr_injection_id r"
      by blast
    from Cons.IH [OF inv' noheads rest] inj obtain blocks where
      "(e1 = None
         \<and> (\<exists>t. rest = signed_chunks c (sr_injection_id r) (prev @ new) blocks
                   @ [last_chunk c (sr_injection_id r) ((prev @ new) @ blocks), Trailer t]))
       \<or> (e1 = Some length_error
          \<and> rest = signed_chunks c (sr_injection_id r) (prev @ new) blocks)"
      by auto
    with out out1
    have "(e = None
            \<and> (\<exists>t. out = signed_chunks c (sr_injection_id r) prev (new @ blocks)
                      @ [last_chunk c (sr_injection_id r) (prev @ (new @ blocks)), Trailer t]))
          \<or> (e = Some length_error
             \<and> out = signed_chunks c (sr_injection_id r) prev (new @ blocks))"
      by (auto simp: signed_chunks_append)
    then show ?thesis by blast
  qed
qed

lemma sr_read_all_proxy_out:
  assumes "sr_proxy_inv r"
    and "\<forall>p \<in> set ups. \<not> is_head p"
    and "sr_read_all c r ups = (e, out)"
  shows "\<exists>blocks. (e = None \<and> (\<exists>t. out = plain_chunks blocks @ [ChunkHdr 0 [], Trailer t]))
                  \<or> (e = Some length_error \<and> out = plain_chunks blocks)"
  using assms
proof (induction ups arbitrary: r e out)
  case Nil
  then show ?case using sr_read_end_proxy_out by simp
next
  case (Cons p ups)
  show ?case
  proof (cases "sr_process_part c p r")
    case (Inl err)
    with Cons.prems(3) sr_process_part_error [OF Inl]
    have "e = Some length_error \<and> out = plain_chunks []"
      by simp
    then show ?thesis by blast
  next
    case (Inr pr)
    obtain e1 rest where rest: "sr_read_all c (snd (sr_emitted pr)) ups = (e1, rest)"
      by (cases "sr_read_all c (snd (sr_emitted pr)) ups")
    with Cons.prems(3) Inr have out: "e = e1" "out = fst (sr_emitted pr) @ rest"
      by simp_all
    from Cons.prems(2) have nohead: "\<not> is_head p" and noheads: "\<forall>p \<in> set ups. \<not> is_head p"
      by auto
    from sr_process_part_proxy_step [OF Cons.prems(1) nohead Inr] obtain new where
      inv': "sr_proxy_inv (snd (sr_emitted pr))"
      and out1: "fst (sr_emitted pr) = plain_chunks new"
      by blast
    from Cons.IH [OF inv' noheads rest] obtain blocks where
      "(e1 = None \<and> (\<exists>t. rest = plain_chunks blocks @ [ChunkHdr 0 [], Trailer t]))
       \<or> (e1 = Some length_error \<and> rest = plain_chunks blocks)"
      by auto
    with out out1
    have "(e = None \<and> (\<exists>t. out = plain_chunks (new @ blocks) @ [ChunkHdr 0 [], Trailer t]))
          \<or> (e = Some length_error \<and> out = plain_chunks (new @ blocks))"
      by (auto simp: plain_chunks_append)
    then show ?thesis by blast
  qed
qed

text \<open>The head decides whether the reader injects.\<close>

lemma sr_read_all_head:
  "sr_read_all c (new_SigningReader inj_id bsize) (Head inh # ups) =
     (case http_injection_head c inh of
        None \<Rightarrow>
          (fst (sr_read_all c (new_SigningReader inj_id bsize) ups),
           Head inh # snd (sr_read_all c (new_SigningReader inj_id bsize) ups))
      | Some h \<Rightarrow>
          (fst (sr_read_all c ((new_SigningReader inj_id bsize)\<lparr>do_inject := True, outh := h\<rparr>)
                  ups),
           Head h # snd (sr_read_all c
                           ((new_SigningReader inj_id bsize)\<lparr>do_inject := True, outh := h\<rparr>)
                           ups)))"
  by (simp add: sr_process_head_def sr_emitted_def new_SigningReader_def
      split: option.splits prod.splits)

lemma new_SigningReader_proxy: "sr_proxy_inv (new_SigningReader inj_id bsize)"
  by (simp add: sr_proxy_inv_def new_SigningReader_def)

lemma new_SigningReader_inject:
  "sr_inv c [] ((new_SigningReader inj_id bsize)\<lparr>do_inject := True, outh := h\<rparr>)"
  by (simp add: sr_inv_def new_SigningReader_def)

lemma chunk_bodies_simps:
  "chunk_bodies [] = []"
  "chunk_bodies (ChunkBody b # ps) = b # chunk_bodies ps"
  "chunk_bodies (ChunkHdr n x # ps) = chunk_bodies ps"
  "chunk_bodies (Trailer t # ps) = chunk_bodies ps"
  "chunk_bodies (Head h # ps) = chunk_bodies ps"
  "chunk_bodies (Body b # ps) = chunk_bodies ps"
  "chunk_bodies (xs @ ys) = chunk_bodies xs @ chunk_bodies ys"
  by (simp_all add: chunk_bodies_def)

lemma chunk_exts_simps:
  "chunk_exts [] = []"
  "chunk_exts (ChunkBody b # ps) = chunk_exts ps"
  "chunk_exts (ChunkHdr n x # ps) = x # chunk_exts ps"
  "chunk_exts (Trailer t # ps) = chunk_exts ps"
  "chunk_exts (Head h # ps) = chunk_exts ps"
  "chunk_exts (xs @ ys) = chunk_exts xs @ chunk_exts ys"
  by (simp_all add: chunk_exts_def)

lemma signed_chunks_bodies: "chunk_bodies (signed_chunks c i prev blocks) = blocks"
  by (induction blocks arbitrary: prev) (simp_all add: chunk_bodies_simps)

lemma plain_chunks_bodies: "chunk_bodies (plain_chunks blocks) = blocks"
  by (induction blocks) (simp_all add: chunk_bodies_simps)

lemma plain_chunks_exts: "chunk_exts (plain_chunks blocks) = replicate (length blocks) []"
  by (induction blocks) (simp_all add: chunk_exts_simps)

lemma signed_exts_nonempty: "signed_exts c i prev blocks \<noteq> []"
  by (cases blocks) simp_all

lemma signed_chunks_exts_aux:
  "all = prev @ blocks \<Longrightarrow>
   chunk_exts (signed_chunks c i prev blocks) @ chunk_exts [last_chunk c i all]
     = signed_exts c i prev blocks"
proof (induction blocks arbitrary: prev)
  case Nil
  then show ?case
    by (simp add: chunk_exts_simps last_chunk_def block_chunk_ext_def ouisig_only_def
          response_block_signature_ext_def)
next
  case (Cons a blocks)
  from Cons.prems have "all = (prev @ [a]) @ blocks"
    by simp
  from Cons.IH [OF this] show ?case
    by (simp add: chunk_exts_simps block_chunk_ext_def ouisig_only_def
          response_block_signature_ext_def)
qed

lemma signed_chunks_exts:
  "chunk_exts (signed_chunks c i prev blocks @ [last_chunk c i (prev @ blocks), Trailer t])
     = signed_exts c i prev blocks"
  using signed_chunks_exts_aux [OF refl, of c i prev blocks]
  by (simp add: chunk_exts_simps last_chunk_def)

lemma signed_chunks_exts_cut:
  "chunk_exts (signed_chunks c i prev blocks) = butlast (signed_exts c i prev blocks)"
proof -
  have "butlast (chunk_exts (signed_chunks c i prev blocks)
                 @ chunk_exts [last_chunk c i (prev @ blocks)])
          = chunk_exts (signed_chunks c i prev blocks)"
    by (simp add: chunk_exts_simps last_chunk_def butlast_append)
  with signed_chunks_exts_aux [OF refl, of c i prev blocks] show ?thesis
    by simp
qed

text \<open>
  What the signing reader sends for a response, a head followed by parts of the body, chunk
  headers and a trailer: the head, then the blocks a chunk each, signed or not, and then, unless
  the buffer has thrown, the last chunk and the trailer.
\<close>

lemma sr_response_out:
  assumes noheads: "\<forall>p \<in> set ups. \<not> is_head p"
    and run: "sr_read_all c (new_SigningReader inj_id bsize) (Head inh # ups) = (e, out)"
  shows "(e = None \<or> e = Some length_error)
         \<and> (\<exists>h blocks.
               (http_injection_head c inh = None
                \<and> (e = None \<and> (\<exists>t. out = Head h # plain_chunks blocks
                                           @ [ChunkHdr 0 [], Trailer t])
                   \<or> e \<noteq> None \<and> out = Head h # plain_chunks blocks))
               \<or> (http_injection_head c inh \<noteq> None
                   \<and> (e = None \<and> (\<exists>t. out = Head h # signed_chunks c inj_id [] blocks
                                             @ [last_chunk c inj_id blocks, Trailer t])
                      \<or> e \<noteq> None \<and> out = Head h # signed_chunks c inj_id [] blocks)))"
proof (cases "http_injection_head c inh")
  case None
  obtain e1 rest where rest: "sr_read_all c (new_SigningReader inj_id bsize) ups = (e1, rest)"
    by (cases "sr_read_all c (new_SigningReader inj_id bsize) ups")
  have "sr_read_all c (new_SigningReader inj_id bsize) (Head inh # ups) = (e1, Head inh # rest)"
    using None rest by (subst sr_read_all_head) simp
  with run have out: "e = e1" "out = Head inh # rest"
    by simp_all
  from sr_read_all_proxy_out [OF new_SigningReader_proxy noheads rest] out None
  show ?thesis by auto
next
  case (Some h)
  let ?r = "(new_SigningReader inj_id bsize)\<lparr>do_inject := True, outh := h\<rparr>"
  obtain e1 rest where rest: "sr_read_all c ?r ups = (e1, rest)"
    by (cases "sr_read_all c ?r ups")
  have "sr_read_all c (new_SigningReader inj_id bsize) (Head inh # ups) = (e1, Head h # rest)"
    using Some rest by (subst sr_read_all_head) simp
  with run have out: "e = e1" "out = Head h # rest"
    by simp_all
  have inj: "sr_injection_id ?r = inj_id"
    by (simp add: new_SigningReader_def)
  from sr_read_all_out [OF new_SigningReader_inject noheads rest] out Some inj
  show ?thesis by auto
qed

lemma qb_get_bytes:
  "qb_get q = (b, q') \<Longrightarrow>
     b @ qb_data q' = qb_data q \<and> qb_size q' = qb_size q \<and> (b \<noteq> [] \<longrightarrow> block_sized (qb_size q) b)"
  by (auto simp: qb_get_def block_sized_def split: if_splits)

lemma qb_get_rest_bytes:
  "qb_get_rest q = (b, q') \<Longrightarrow>
     b @ qb_data q' = qb_data q \<and> qb_size q' = qb_size q \<and> (b \<noteq> [] \<longrightarrow> block_sized (qb_size q) b)"
  by (auto simp: qb_get_rest_def block_sized_def split: if_splits)

lemma sr_process_data_bytes:
  assumes "sr_process_data c inbuf r = Inr pr"
  shows "concat (chunk_bodies (fst (sr_emitted pr))) @ qb_data (sr_qbuf (snd (sr_emitted pr)))
           = concat (chunk_bodies (sr_pending_parts r)) @ qb_data (sr_qbuf r) @ inbuf
         \<and> qb_size (sr_qbuf (snd (sr_emitted pr))) = qb_size (sr_qbuf r)
         \<and> sr_is_done (snd (sr_emitted pr)) = sr_is_done r
         \<and> ((\<forall>b \<in> set (chunk_bodies (sr_pending_parts r)). block_sized (qb_size (sr_qbuf r)) b)
              \<longrightarrow> (\<forall>b \<in> set (chunk_bodies (fst (sr_emitted pr))).
                      block_sized (qb_size (sr_qbuf r)) b))"
proof -
  from assms obtain q1 where put: "qb_put c inbuf (sr_qbuf r) = Some q1"
    by (auto simp: sr_process_data_def Let_def split: option.splits)
  then have q1: "qb_data q1 = qb_data (sr_qbuf r) @ inbuf" "qb_size q1 = qb_size (sr_qbuf r)"
    by (auto simp: qb_put_def split: if_splits)
  obtain block_buf q2 where get:
    "(if length inbuf > 0 then qb_get q1 else qb_get_rest q1) = (block_buf, q2)"
    by (cases "if length inbuf > 0 then qb_get q1 else qb_get_rest q1")
  then have bytes: "block_buf @ qb_data q2 = qb_data q1" "qb_size q2 = qb_size q1"
    "block_buf \<noteq> [] \<longrightarrow> block_sized (qb_size q1) block_buf"
    using qb_get_bytes [of q1 block_buf q2] qb_get_rest_bytes [of q1 block_buf q2]
    by (auto split: if_splits)
  from assms put get bytes q1 show ?thesis
    by (cases "block_buf = []")
       (auto simp: sr_process_data_def Let_def sr_emitted_def chunk_bodies_simps
          split: if_splits)
qed

lemma sr_process_part_bytes:
  assumes "sr_process_part c p r = Inr pr"
    and "sr_pending_parts r = []"
  shows "concat (chunk_bodies (fst (sr_emitted pr))) @ qb_data (sr_qbuf (snd (sr_emitted pr)))
           = qb_data (sr_qbuf r) @ part_bytes p
         \<and> qb_size (sr_qbuf (snd (sr_emitted pr))) = qb_size (sr_qbuf r)
         \<and> sr_is_done (snd (sr_emitted pr)) = sr_is_done r
         \<and> (\<forall>b \<in> set (chunk_bodies (fst (sr_emitted pr))). block_sized (qb_size (sr_qbuf r)) b)"
proof (cases p)
  case (Head h)
  with assms show ?thesis
    by (auto simp: sr_process_head_def sr_emitted_def chunk_bodies_simps part_bytes_def
        split: option.splits)
next
  case (Body d)
  with assms sr_process_data_bytes [of c d r pr] show ?thesis
    by (simp add: chunk_bodies_simps part_bytes_def)
next
  case (ChunkBody d)
  with assms sr_process_data_bytes [of c d r pr] show ?thesis
    by (simp add: chunk_bodies_simps part_bytes_def)
next
  case (ChunkHdr n x)
  with assms show ?thesis
    by (auto simp: sr_emitted_def chunk_bodies_simps part_bytes_def)
next
  case (Trailer t)
  with assms show ?thesis
    by (auto simp: sr_emitted_def chunk_bodies_simps part_bytes_def)
qed

lemma sr_emitted_pending: "sr_pending_parts (snd (sr_emitted pr)) = []"
  by (simp add: sr_emitted_def)

lemma sr_process_end_bytes:
  assumes "sr_process_end c r = Inr (Some p, r')"
    and "sr_pending_parts r = []"
    and "\<not> sr_is_done r"
  shows "concat (chunk_bodies (fst (sr_emitted (Some p, r'))))
             @ qb_data (sr_qbuf (snd (sr_emitted (Some p, r'))))
           = qb_data (sr_qbuf r)
         \<and> qb_size (sr_qbuf (snd (sr_emitted (Some p, r')))) = qb_size (sr_qbuf r)
         \<and> (sr_is_done (snd (sr_emitted (Some p, r'))) \<longrightarrow>
              qb_data (sr_qbuf (snd (sr_emitted (Some p, r')))) = [])
         \<and> (\<forall>b \<in> set (chunk_bodies (fst (sr_emitted (Some p, r')))).
               block_sized (qb_size (sr_qbuf r)) b)"
proof (cases "sr_process_data c [] r")
  case (Inl e)
  with assms show ?thesis by (simp add: sr_process_end_def)
next
  case (Inr pr)
  obtain po r1 where pr: "pr = (po, r1)" by (cases pr)
  show ?thesis
  proof (cases po)
    case None
    from Inr pr None
    have "qb_data (sr_qbuf r1) = []" "qb_data (sr_qbuf r) = []"
      "qb_size (sr_qbuf r1) = qb_size (sr_qbuf r)" "sr_pending_parts r1 = sr_pending_parts r"
      by (auto simp: sr_process_data_def Let_def qb_put_def qb_get_rest_def
          split: option.splits prod.splits if_splits)
    then show ?thesis
      using assms Inr pr None
      by (auto simp: sr_process_end_def Let_def sr_emitted_def chunk_bodies_simps
          split: if_splits)
  next
    case (Some ch)
    with assms Inr pr have same: "p = ch" "r' = r1"
      by (simp_all add: sr_process_end_def)
    from sr_process_data_bytes [OF Inr] pr Some same assms(2,3) show ?thesis
      by (simp add: chunk_bodies_simps)
  qed
qed

lemma sr_read_end_bytes:
  assumes "sr_read_end c r = (e, out)"
    and "sr_pending_parts r = []"
    and "sr_is_done r \<longrightarrow> qb_data (sr_qbuf r) = []"
  shows "(e = None \<longrightarrow> concat (chunk_bodies out) = qb_data (sr_qbuf r))
         \<and> (\<forall>b \<in> set (chunk_bodies out). block_sized (qb_size (sr_qbuf r)) b)"
  using assms
proof (induction c r arbitrary: e out rule: sr_read_end.induct)
  case (1 c r)
  show ?case
  proof (cases "sr_process_end c r")
    case (Inl err)
    with "1.prems"(1) show ?thesis
      by (subst (asm) sr_read_end.simps) (auto simp: chunk_bodies_simps)
  next
    case (Inr pr)
    obtain po r1 where pr: "pr = (po, r1)" by (cases pr)
    show ?thesis
    proof (cases po)
      case None
      with Inr pr have fin: "sr_is_done r"
        by (auto simp: sr_process_end_def Let_def split: if_splits sum.splits prod.splits
              option.splits)
      from "1.prems"(1) Inr pr None have "e = None" "out = []"
        by (subst (asm) sr_read_end.simps, simp)+
      with fin "1.prems"(3) show ?thesis
        by (simp add: chunk_bodies_simps)
    next
      case (Some p)
      with Inr pr have pe: "sr_process_end c r = Inr (Some p, r1)" by simp
      then have notdone: "\<not> sr_is_done r"
        by (auto simp: sr_process_end_def)
      obtain e1 rest where rest:
        "sr_read_end c (snd (sr_emitted (Some p, r1))) = (e1, rest)"
        by (cases "sr_read_end c (snd (sr_emitted (Some p, r1)))")
      with "1.prems"(1) pe have out: "e = e1" "out = fst (sr_emitted (Some p, r1)) @ rest"
        by (subst (asm) sr_read_end.simps, simp)+
      from sr_process_end_bytes [OF pe "1.prems"(2) notdone]
      have bytes: "concat (chunk_bodies (fst (sr_emitted (Some p, r1))))
                     @ qb_data (sr_qbuf (snd (sr_emitted (Some p, r1)))) = qb_data (sr_qbuf r)"
        and size: "qb_size (sr_qbuf (snd (sr_emitted (Some p, r1)))) = qb_size (sr_qbuf r)"
        and fin: "sr_is_done (snd (sr_emitted (Some p, r1))) \<longrightarrow>
                    qb_data (sr_qbuf (snd (sr_emitted (Some p, r1)))) = []"
        and sized: "\<forall>b \<in> set (chunk_bodies (fst (sr_emitted (Some p, r1)))).
                      block_sized (qb_size (sr_qbuf r)) b"
        by simp_all
      from "1.IH" [OF pe refl refl rest sr_emitted_pending fin] size
      have ih: "e1 = None \<longrightarrow> concat (chunk_bodies rest)
                                 = qb_data (sr_qbuf (snd (sr_emitted (Some p, r1))))"
        "\<forall>b \<in> set (chunk_bodies rest). block_sized (qb_size (sr_qbuf r)) b"
        by simp_all
      have "e = None \<longrightarrow> concat (chunk_bodies out) = qb_data (sr_qbuf r)"
        using out ih(1) bytes
        by (simp add: chunk_bodies_simps(7) [of "fst (sr_emitted (Some p, r1))" rest])
      moreover have "\<forall>b \<in> set (chunk_bodies out). block_sized (qb_size (sr_qbuf r)) b"
        using out ih(2) sized
        by (auto simp: chunk_bodies_simps(7) [of "fst (sr_emitted (Some p, r1))" rest])
      ultimately show ?thesis by simp
    qed
  qed
qed

lemma sr_read_all_bytes:
  assumes "sr_read_all c r ups = (e, out)"
    and "sr_pending_parts r = []"
    and "\<not> sr_is_done r"
  shows "(e = None \<longrightarrow> concat (chunk_bodies out)
                          = qb_data (sr_qbuf r) @ concat (map part_bytes ups))
         \<and> (\<forall>b \<in> set (chunk_bodies out). block_sized (qb_size (sr_qbuf r)) b)"
  using assms
proof (induction ups arbitrary: r e out)
  case Nil
  then show ?case using sr_read_end_bytes [of c r e out] by simp
next
  case (Cons p ups)
  show ?case
  proof (cases "sr_process_part c p r")
    case (Inl err)
    with Cons.prems(1) show ?thesis by (auto simp: chunk_bodies_simps)
  next
    case (Inr pr)
    obtain e1 rest where rest: "sr_read_all c (snd (sr_emitted pr)) ups = (e1, rest)"
      by (cases "sr_read_all c (snd (sr_emitted pr)) ups")
    with Cons.prems(1) Inr have out: "e = e1" "out = fst (sr_emitted pr) @ rest"
      by simp_all
    from sr_process_part_bytes [OF Inr Cons.prems(2)] Cons.prems(3)
    have bytes: "concat (chunk_bodies (fst (sr_emitted pr))) @ qb_data (sr_qbuf (snd (sr_emitted pr)))
                   = qb_data (sr_qbuf r) @ part_bytes p"
      and size: "qb_size (sr_qbuf (snd (sr_emitted pr))) = qb_size (sr_qbuf r)"
      and notdone: "\<not> sr_is_done (snd (sr_emitted pr))"
      and sized: "\<forall>b \<in> set (chunk_bodies (fst (sr_emitted pr))). block_sized (qb_size (sr_qbuf r)) b"
      by simp_all
    from Cons.IH [OF rest sr_emitted_pending notdone] size
    have ih: "e1 = None \<longrightarrow> concat (chunk_bodies rest)
                 = qb_data (sr_qbuf (snd (sr_emitted pr))) @ concat (map part_bytes ups)"
      "\<forall>b \<in> set (chunk_bodies rest). block_sized (qb_size (sr_qbuf r)) b"
      by simp_all
    have "e = None \<longrightarrow> concat (chunk_bodies out)
                          = qb_data (sr_qbuf r) @ concat (map part_bytes (p # ups))"
    proof
      assume "e = None"
      with out ih(1) have "concat (chunk_bodies out)
          = (concat (chunk_bodies (fst (sr_emitted pr))) @ qb_data (sr_qbuf (snd (sr_emitted pr))))
            @ concat (map part_bytes ups)"
        by (simp add: chunk_bodies_simps(7) [of "fst (sr_emitted pr)" rest])
      with bytes show "concat (chunk_bodies out)
          = qb_data (sr_qbuf r) @ concat (map part_bytes (p # ups))"
        by simp
    qed
    moreover have "\<forall>b \<in> set (chunk_bodies out). block_sized (qb_size (sr_qbuf r)) b"
      using out ih(2) sized
      by (auto simp: chunk_bodies_simps(7) [of "fst (sr_emitted pr)" rest])
    ultimately show ?thesis by simp
  qed
qed

lemma sr_response_bytes:
  assumes run: "sr_read_all c (new_SigningReader inj_id bsize) (Head inh # ups) = (e, out)"
  shows "(\<forall>b \<in> set (chunk_bodies out). block_sized bsize b)
         \<and> (e = None \<longrightarrow> concat (chunk_bodies out) = concat (map part_bytes ups))"
proof -
  define r where "r = (case http_injection_head c inh of
                         None \<Rightarrow> new_SigningReader inj_id bsize
                       | Some h \<Rightarrow> (new_SigningReader inj_id bsize)\<lparr>do_inject := True, outh := h\<rparr>)"
  have start: "sr_pending_parts r = []" "\<not> sr_is_done r" "qb_data (sr_qbuf r) = []"
    "qb_size (sr_qbuf r) = bsize"
    by (simp_all add: r_def new_SigningReader_def split: option.splits)
  obtain e1 rest where rest: "sr_read_all c r ups = (e1, rest)"
    by (cases "sr_read_all c r ups")
  have "\<exists>h. sr_read_all c (new_SigningReader inj_id bsize) (Head inh # ups) = (e1, Head h # rest)"
    using rest by (subst sr_read_all_head) (auto simp: r_def split: option.splits)
  with run obtain h where out: "e = e1" "out = Head h # rest"
    by auto
  from sr_read_all_bytes [OF rest start(1,2)] start(3,4) out show ?thesis
    by (simp add: chunk_bodies_simps)
qed

lemma demo_no_heads: "\<forall>p \<in> set demo_body. \<not> is_head p"
  by (simp add: demo_body_def is_head_def)

lemma demo_signer_output:
  "sr_read_all demo_crypto (new_SigningReader ''inj'' 4) (Head demo_head # demo_body) =
     (None, Head demo_head # signed_chunks demo_crypto ''inj'' [] demo_blocks
            @ [last_chunk demo_crypto ''inj'' demo_blocks, Trailer ''X-Ouinet-Data-Size: 10''])"
  by code_simp

lemma demo_signer_no_cache_output:
  "sr_read_all demo_crypto_no_cache (new_SigningReader ''inj'' 4) (Head demo_head # demo_body) =
     (None, Head demo_head # plain_chunks demo_blocks @ [ChunkHdr 0 [], Trailer []])"
  by code_simp

lemma demo_bad_sig_parsed:
  "block_sig_from_exts demo_crypto (block_chunk_ext demo_crypto (Some bad_sig) None)
     = Some bad_sig"
  by code_simp

lemma demo_bad_sig_refused:
  "\<not> pk_verify demo_crypto
        (block_sig_str ''inj'' 0 (sha512 demo_crypto ''abcd'')) bad_sig"
  by code_simp


text \<open>
  Claim C2. When a chunk header makes the verifying reader take a block from its buffer, the
  header has a signature, and this signature does not verify against the injection id, the
  offset of the block and the chain hash computed for the block, the call fails with
  \<^verbatim>\<open>bad_message\<close>, nothing is added to the parts pending, the block is gone from the
  buffer, and the caller is delivered neither this block nor anything after it.
\<close>

theorem bad_block_signature_reports_bad_message:
  assumes block: "vr_next_block n r = Some (block, q)"
    and sg: "block_sig_from_exts c x = Some sg"
    and digest: "vr_chain_hash c x block r = Some digest"
    and bad: "\<not> pk_verify c (block_sig_str (vr_injection_id r) (vr_block_offset r) digest) sg"
  shows "(\<exists>r'. vr_async_read_part c (ChunkHdr n x) r = Failed bad_message r'
               \<and> vr_pending_parts r' = vr_pending_parts r
               \<and> (n \<le> bs_size r \<longrightarrow> vr_qbuf r' = q))
         \<and> vr_read_all c r (ChunkHdr n x # rest) = (Some bad_message, [])"
proof -
  have "\<exists>r'. vr_process_chunk_hdr c n x r = Failed bad_message r'
               \<and> vr_pending_parts r' = vr_pending_parts r
               \<and> (n \<le> bs_size r \<longrightarrow> vr_qbuf r' = q)"
    using assms
    by (auto simp: vr_process_chunk_hdr_def vr_next_block_def vr_chain_hash_def Let_def
          hash_update_def
        split: prod.splits if_splits option.splits)
  then obtain r' where r': "vr_process_chunk_hdr c n x r = Failed bad_message r'"
    "vr_pending_parts r' = vr_pending_parts r" "n \<le> bs_size r \<longrightarrow> vr_qbuf r' = q"
    by blast
  then have "vr_async_read_part c (ChunkHdr n x) r = Failed bad_message r'"
    by (simp add: vr_async_read_part_def)
  with r' show ?thesis by auto
qed

theorem bad_block_signature_reports_bad_message_witness:
  "vr_read_all demo_crypto demo_verifier_abcd
     [ChunkHdr 4 (block_chunk_ext demo_crypto (Some bad_sig) None), ChunkBody ''efgh'']
     = (Some bad_message, [])"
proof -
  let ?x = "block_chunk_ext demo_crypto (Some bad_sig) None"
  have block: "vr_next_block 4 demo_verifier_abcd = Some (''abcd'', \<lparr>qb_size = 4, qb_data = []\<rparr>)"
    by (simp add: vr_next_block_def demo_verifier_abcd_def demo_verifier_def qb_get_def)
  have digest: "vr_chain_hash demo_crypto ?x ''abcd'' demo_verifier_abcd
                  = Some (sha512 demo_crypto ''abcd'')"
    by (simp add: vr_chain_hash_def demo_verifier_abcd_def demo_verifier_def)
  have bad: "\<not> pk_verify demo_crypto
                 (block_sig_str (vr_injection_id demo_verifier_abcd)
                    (vr_block_offset demo_verifier_abcd) (sha512 demo_crypto ''abcd'')) bad_sig"
    using demo_bad_sig_refused by (simp add: demo_verifier_abcd_def demo_verifier_def)
  show ?thesis
    using bad_block_signature_reports_bad_message [OF block demo_bad_sig_parsed digest bad]
    by blast
qed

text \<open>
  Claim C7, as the code has it. The signing reader reads a response: a head and then parts of
  the body, chunk headers and a trailer. When the head can be cached the reader injects, and
  the chunk extensions it sends are, in turn: none on the first block; on every later block
  the \<^verbatim>\<open>ouisig\<close> of the block before it and nothing else; on the last, empty chunk the
  \<^verbatim>\<open>ouisig\<close> of the last block and nothing else. When the head cannot be cached the reader
  passes the response on, and every chunk extension it sends is empty. The only failure of the
  reader is the exception of its buffer; the stream then ends before the last, empty chunk, and
  the extensions sent until then are the same. Whatever the parts in which the body is read,
  a block sent is not empty and not longer than the size of the buffer, and the blocks of a
  stream sent to its end are, one after the other, the bytes of the body.
\<close>

theorem signing_reader_sends_ouisig_only:
  assumes "\<forall>p \<in> set ups. \<not> is_head p"
    and "sr_read_all c (new_SigningReader inj_id bsize) (Head inh # ups) = (e, out)"
  shows "(e = None \<or> e = Some length_error)
         \<and> chunk_exts out =
             (if http_injection_head c inh = None
              then replicate (length (chunk_bodies out) + (if e = None then 1 else 0)) []
              else if e = None then signed_exts c inj_id [] (chunk_bodies out)
              else butlast (signed_exts c inj_id [] (chunk_bodies out)))
         \<and> (\<forall>b \<in> set (chunk_bodies out). block_sized bsize b)
         \<and> (e = None \<longrightarrow> concat (chunk_bodies out) = concat (map part_bytes ups))"
proof -
  from sr_response_out [OF assms] obtain h blocks where
    err: "e = None \<or> e = Some length_error"
    and out: "(http_injection_head c inh = None
                \<and> (e = None \<and> (\<exists>t. out = Head h # plain_chunks blocks
                                           @ [ChunkHdr 0 [], Trailer t])
                   \<or> e \<noteq> None \<and> out = Head h # plain_chunks blocks))
               \<or> (http_injection_head c inh \<noteq> None
                   \<and> (e = None \<and> (\<exists>t. out = Head h # signed_chunks c inj_id [] blocks
                                             @ [last_chunk c inj_id blocks, Trailer t])
                      \<or> e \<noteq> None \<and> out = Head h # signed_chunks c inj_id [] blocks))"
    by blast
  from out consider
      (proxy) t where "http_injection_head c inh = None" "e = None"
        "out = Head h # plain_chunks blocks @ [ChunkHdr 0 [], Trailer t]"
    | (proxy_cut) "http_injection_head c inh = None" "e \<noteq> None"
        "out = Head h # plain_chunks blocks"
    | (inject) t where "http_injection_head c inh \<noteq> None" "e = None"
        "out = Head h # signed_chunks c inj_id [] blocks
                 @ [last_chunk c inj_id blocks, Trailer t]"
    | (inject_cut) "http_injection_head c inh \<noteq> None" "e \<noteq> None"
        "out = Head h # signed_chunks c inj_id [] blocks"
    by auto
  then have "chunk_exts out =
             (if http_injection_head c inh = None
              then replicate (length (chunk_bodies out) + (if e = None then 1 else 0)) []
              else if e = None then signed_exts c inj_id [] (chunk_bodies out)
              else butlast (signed_exts c inj_id [] (chunk_bodies out)))"
  proof cases
    case proxy
    then show ?thesis
      by (simp add: chunk_exts_simps chunk_bodies_simps plain_chunks_exts plain_chunks_bodies
            replicate_append_same)
  next
    case proxy_cut
    then show ?thesis
      by (simp add: chunk_exts_simps chunk_bodies_simps plain_chunks_exts plain_chunks_bodies)
  next
    case inject
    have "chunk_bodies out = blocks"
      using inject(3) by (simp add: chunk_bodies_simps signed_chunks_bodies last_chunk_def)
    moreover have "chunk_exts out = signed_exts c inj_id [] blocks"
      using inject(3) signed_chunks_exts [of c inj_id "[]" blocks t]
      by (simp add: chunk_exts_simps)
    ultimately show ?thesis using inject(1,2) by auto
  next
    case inject_cut
    have "chunk_bodies out = blocks"
      using inject_cut(3) by (simp add: chunk_bodies_simps signed_chunks_bodies)
    moreover have "chunk_exts out = butlast (signed_exts c inj_id [] blocks)"
      using inject_cut(3) by (simp add: chunk_exts_simps signed_chunks_exts_cut)
    ultimately show ?thesis using inject_cut(1,2) by auto
  qed
  with err sr_response_bytes [OF assms(2)] show ?thesis by simp
qed

theorem signing_reader_sends_ouisig_only_witness:
  "chunk_exts (snd (sr_read_all demo_crypto demo_signer (Head demo_head # demo_body)))
     = signed_exts demo_crypto ''inj'' [] demo_blocks
   \<and> chunk_exts (snd (sr_read_all demo_crypto_no_cache demo_signer (Head demo_head # demo_body)))
     = [[], [], [], []]"
proof -
  let ?signed = "Head demo_head # signed_chunks demo_crypto ''inj'' [] demo_blocks
            @ [last_chunk demo_crypto ''inj'' demo_blocks, Trailer ''X-Ouinet-Data-Size: 10'']"
  let ?plain = "Head demo_head # plain_chunks demo_blocks @ [ChunkHdr 0 [], Trailer []]"
  have cached: "http_injection_head demo_crypto demo_head \<noteq> None"
    by (simp add: demo_crypto_def)
  have not_cached: "http_injection_head demo_crypto_no_cache demo_head = None"
    by (simp add: demo_crypto_no_cache_def)
  have bodies: "chunk_bodies ?signed = demo_blocks"
    by (simp add: chunk_bodies_simps signed_chunks_bodies last_chunk_def)
  have plain: "chunk_bodies ?plain = demo_blocks"
    by (simp add: chunk_bodies_simps plain_chunks_bodies)
  have three: "length demo_blocks = 3"
    by (simp add: demo_blocks_def)
  have signed_exts: "chunk_exts ?signed = signed_exts demo_crypto ''inj'' [] demo_blocks"
    using signing_reader_sends_ouisig_only [OF demo_no_heads demo_signer_output] cached bodies
    by simp
  have plain_exts: "chunk_exts ?plain = [[], [], [], []]"
    using signing_reader_sends_ouisig_only [OF demo_no_heads demo_signer_no_cache_output]
      not_cached plain three
    by (simp add: numeral_3_eq_3)
  have run1: "snd (sr_read_all demo_crypto demo_signer (Head demo_head # demo_body)) = ?signed"
    unfolding demo_signer_def demo_signer_output by (rule snd_conv)
  have run2: "snd (sr_read_all demo_crypto_no_cache demo_signer (Head demo_head # demo_body))
                = ?plain"
    unfolding demo_signer_def demo_signer_no_cache_output by (rule snd_conv)
  show ?thesis
    unfolding run1 run2 using signed_exts plain_exts by (rule conjI)
qed

text \<open>
  Claim C7 as stated has an \<^verbatim>\<open>ouihash\<close> in the extension of every block from the second
  one on. In the stream of the signing reader for three blocks no extension has one: the
  extractor of the verifying reader finds a signature in the second, third and last
  extension, and a chain hash in none.
\<close>

theorem signing_reader_sends_no_ouihash:
  "map (block_dig_from_exts demo_crypto)
     (chunk_exts (snd (sr_read_all demo_crypto demo_signer (Head demo_head # demo_body))))
     = [None, None, None, None]
   \<and> map (\<lambda>x. block_sig_from_exts demo_crypto x \<noteq> None)
       (chunk_exts (snd (sr_read_all demo_crypto demo_signer (Head demo_head # demo_body))))
     = [False, True, True, True]
   \<and> chunk_bodies (snd (sr_read_all demo_crypto demo_signer (Head demo_head # demo_body)))
     = [''abcd'', ''efgh'', ''ij'']"
  by code_simp

end
